theory Spec2Isabelle
  imports Main
begin

section \<open>JavaScript values\<close>

text \<open>
  The gateway is TypeScript running on a JavaScript engine. Strings are modelled as
  byte strings holding UTF-8 text. A JavaScript number is modelled as an exact decimal
  \<open>Dec m d\<close>, standing for \<open>m / 10^d\<close>, or \<open>NaN\<close>; an integer \<open>n\<close> is \<open>Dec n 0\<close>.
  The rounding of IEEE doubles, the infinities and the sign of zero are outside the model.
\<close>

datatype jsnum = NaN | Dec int nat

datatype jsval =
    JUndefined
  | JNull
  | JBool bool
  | JNum jsnum
  | JStr string
  | JArr "jsval list"
  | JObj "(string \<times> jsval) list"

text \<open>A decimal is in normal form when it has no trailing zero behind the point.\<close>

fun num_ok :: "jsnum \<Rightarrow> bool" where
  "num_ok NaN = False"
| "num_ok (Dec m d) = (d = 0 \<or> m mod 10 \<noteq> 0)"

fun norm_dec :: "int \<Rightarrow> nat \<Rightarrow> jsnum" where
  "norm_dec m 0 = Dec m 0"
| "norm_dec m (Suc d) = (if m mod 10 = 0 then norm_dec (m div 10) d else Dec m (Suc d))"

subsection \<open>Decimal digits\<close>

definition digit_char :: "nat \<Rightarrow> char" where
  "digit_char d = ''0123456789'' ! d"

definition is_digit :: "char \<Rightarrow> bool" where
  "is_digit c = (c \<in> set ''0123456789'')"

definition digit_val :: "char \<Rightarrow> nat" where
  "digit_val c = of_char c - 48"

fun show_nat :: "nat \<Rightarrow> string" where
  "show_nat n = (if n < 10 then [digit_char n] else show_nat (n div 10) @ [digit_char (n mod 10)])"

declare show_nat.simps [simp del]

definition digits_val :: "string \<Rightarrow> nat" where
  "digits_val ds = foldl (\<lambda>a c. 10 * a + digit_val c) 0 ds"

subsection \<open>Number to string (ECMA-262 Number::toString, radix 10)\<close>

definition strip_zeros :: "string \<Rightarrow> string" where
  "strip_zeros ds = rev (dropWhile (\<lambda>c. c = CHR ''0'') (rev ds))"

text \<open>Scientific notation: significant digits \<open>s\<close>, decimal point position \<open>n\<close>.\<close>

definition exp_form :: "string \<Rightarrow> int \<Rightarrow> string" where
  "exp_form s n =
     (hd s # (if tl s = [] then [] else CHR ''.'' # tl s)) @ ''e'' @
     (if n - 1 < 0 then ''-'' else ''+'') @ show_nat (nat (abs (n - 1)))"

definition show_pos :: "nat \<Rightarrow> nat \<Rightarrow> string" where
  "show_pos m d =
     (let ds = show_nat m; K = length ds in
      if d = 0 then (if K \<le> 21 then ds else exp_form (strip_zeros ds) (int K))
      else
        (let n = int K - int d in
         if 0 < n \<and> n \<le> 21 then take (nat n) ds @ ''.'' @ drop (nat n) ds
         else if - 6 < n \<and> n \<le> 0 then ''0.'' @ replicate (nat (- n)) (CHR ''0'') @ ds
         else exp_form ds n))"

fun Number_toString :: "jsnum \<Rightarrow> string" where
  "Number_toString NaN = ''NaN''"
| "Number_toString (Dec m d) =
     (if m = 0 then ''0''
      else if m < 0 then ''-'' @ show_pos (nat (- m)) d
      else show_pos (nat m) d)"

subsection \<open>Truthiness, property access, conversion to string\<close>

fun truthy :: "jsval \<Rightarrow> bool" where
  "truthy JUndefined = False"
| "truthy JNull = False"
| "truthy (JBool b) = b"
| "truthy (JNum NaN) = False"
| "truthy (JNum (Dec m d)) = (m \<noteq> 0)"
| "truthy (JStr s) = (s \<noteq> [])"
| "truthy (JArr xs) = True"
| "truthy (JObj kvs) = True"

text \<open>
  An object is the list of its own enumerable properties in enumeration order; a real
  object never holds a key twice. \<open>obj_get\<close> reads a property (\<open>undefined\<close> when absent),
  \<open>obj_set\<close> assigns one: an existing key keeps its place, a new key goes last.
\<close>

fun obj_get :: "(string \<times> jsval) list \<Rightarrow> string \<Rightarrow> jsval" where
  "obj_get [] k = JUndefined"
| "obj_get ((k', v) # kvs) k = (if k' = k then v else obj_get kvs k)"

fun obj_set :: "(string \<times> 'a) list \<Rightarrow> string \<Rightarrow> 'a \<Rightarrow> (string \<times> 'a) list" where
  "obj_set [] k v = [(k, v)]"
| "obj_set ((k', v') # kvs) k v = (if k' = k then (k, v) # kvs else (k', v') # obj_set kvs k v)"

text \<open>Object spread \<open>{...a, ...b}\<close>: the properties of \<open>b\<close> assigned onto \<open>a\<close> in order.\<close>

definition spread :: "(string \<times> 'a) list \<Rightarrow> (string \<times> 'a) list \<Rightarrow> (string \<times> 'a) list" where
  "spread a b = foldl (\<lambda>acc (k, v). obj_set acc k v) a b"

fun join_with :: "string \<Rightarrow> string list \<Rightarrow> string" where
  "join_with sep [] = []"
| "join_with sep [x] = x"
| "join_with sep (x # y # ys) = x @ sep @ join_with sep (y # ys)"

text \<open>
  ToString, as a template literal and the \<open>Error\<close> constructor apply it. An array joins
  the strings of its elements with commas (\<open>null\<close> and \<open>undefined\<close> elements give the
  empty string). An ordinary object gives \<open>[object Object]\<close>, unless it has an own
  property \<open>toString\<close>: a value read from JSON is never callable, so the conversion
  finds no method that returns a primitive and throws a TypeError (here \<open>None\<close>).
\<close>

fun js_to_string :: "jsval \<Rightarrow> string option"
and elems_to_strings :: "jsval list \<Rightarrow> string list option" where
  "js_to_string JUndefined = Some ''undefined''"
| "js_to_string JNull = Some ''null''"
| "js_to_string (JBool b) = Some (if b then ''true'' else ''false'')"
| "js_to_string (JNum n) = Some (Number_toString n)"
| "js_to_string (JStr s) = Some s"
| "js_to_string (JArr xs) = map_option (join_with '','') (elems_to_strings xs)"
| "js_to_string (JObj kvs) =
     (if ''toString'' \<in> set (map fst kvs) then None else Some ''[object Object]'')"
| "elems_to_strings [] = Some []"
| "elems_to_strings (x # xs) =
     (case (if x = JUndefined \<or> x = JNull then Some [] else js_to_string x) of
        None \<Rightarrow> None
      | Some s \<Rightarrow> map_option ((#) s) (elems_to_strings xs))"

section \<open>JSON.stringify\<close>

definition hex_digit :: "nat \<Rightarrow> char" where
  "hex_digit n = ''0123456789abcdef'' ! n"

text \<open>
  QuoteJSONString: the quotation mark, the backslash and the control characters are
  escaped, every other byte is copied.
\<close>

definition escape_char :: "char \<Rightarrow> string" where
  "escape_char c =
     (if c = CHR 0x08 then [CHR 0x5C, CHR ''b'']
      else if c = CHR 0x09 then [CHR 0x5C, CHR ''t'']
      else if c = CHR 0x0A then [CHR 0x5C, CHR ''n'']
      else if c = CHR 0x0C then [CHR 0x5C, CHR ''f'']
      else if c = CHR 0x0D then [CHR 0x5C, CHR ''r'']
      else if c = CHR 0x22 then [CHR 0x5C, CHR 0x22]
      else if c = CHR 0x5C then [CHR 0x5C, CHR 0x5C]
      else if (of_char c :: nat) < 32 then
        [CHR 0x5C, CHR ''u'', CHR ''0'', CHR ''0'',
         hex_digit (of_char c div 16), hex_digit (of_char c mod 16)]
      else [c])"

definition quote :: "string \<Rightarrow> string" where
  "quote s = CHR 0x22 # concat (map escape_char s) @ [CHR 0x22]"

text \<open>
  SerializeJSONProperty with gap \<open>g\<close> (empty for \<open>JSON.stringify(v)\<close>, two spaces for
  \<open>JSON.stringify(v, null, 2)\<close>) at current indentation \<open>i\<close>. An \<open>undefined\<close> array
  element is written \<open>null\<close>, an \<open>undefined\<close> property is left out, \<open>NaN\<close> is written
  \<open>null\<close>.
\<close>

fun ser :: "string \<Rightarrow> string \<Rightarrow> jsval \<Rightarrow> string"
and ser_elems :: "string \<Rightarrow> string \<Rightarrow> jsval list \<Rightarrow> string list"
and ser_members :: "string \<Rightarrow> string \<Rightarrow> (string \<times> jsval) list \<Rightarrow> string list" where
  "ser g i JUndefined = ''null''"
| "ser g i JNull = ''null''"
| "ser g i (JBool b) = (if b then ''true'' else ''false'')"
| "ser g i (JNum n) = (if n = NaN then ''null'' else Number_toString n)"
| "ser g i (JStr s) = quote s"
| "ser g i (JArr xs) =
     (if xs = [] then ''[]''
      else if g = [] then ''['' @ join_with '','' (ser_elems g (i @ g) xs) @ '']''
      else ''['' @ [CHR 0x0A] @ (i @ g) @
           join_with ('','' @ [CHR 0x0A] @ (i @ g)) (ser_elems g (i @ g) xs) @
           [CHR 0x0A] @ i @ '']'')"
| "ser g i (JObj kvs) =
     (if ser_members g (i @ g) kvs = [] then ''{}''
      else if g = [] then ''{'' @ join_with '','' (ser_members g (i @ g) kvs) @ ''}''
      else ''{'' @ [CHR 0x0A] @ (i @ g) @
           join_with ('','' @ [CHR 0x0A] @ (i @ g)) (ser_members g (i @ g) kvs) @
           [CHR 0x0A] @ i @ ''}'')"
| "ser_elems g i [] = []"
| "ser_elems g i (x # xs) = ser g i x # ser_elems g i xs"
| "ser_members g i [] = []"
| "ser_members g i ((k, v) # kvs) =
     (if v = JUndefined then ser_members g i kvs
      else (quote k @ '':'' @ (if g = [] then [] else '' '') @ ser g i v) # ser_members g i kvs)"

text \<open>\<open>JSON.stringify\<close> returns \<open>undefined\<close> (here \<open>None\<close>) for \<open>undefined\<close>.\<close>

definition JSON_stringify :: "string \<Rightarrow> jsval \<Rightarrow> string option" where
  "JSON_stringify g v = (if v = JUndefined then None else Some (ser g [] v))"

section \<open>JSON.parse\<close>

definition is_ws :: "char \<Rightarrow> bool" where
  "is_ws c = (c = CHR '' '' \<or> c = CHR 0x09 \<or> c = CHR 0x0A \<or> c = CHR 0x0D)"

definition skip_ws :: "string \<Rightarrow> string" where
  "skip_ws s = dropWhile is_ws s"

definition hex_val :: "char \<Rightarrow> nat option" where
  "hex_val c =
     (if is_digit c then Some (digit_val c)
      else if c \<in> set ''abcdef'' then Some (of_char c - 87)
      else if c \<in> set ''ABCDEF'' then Some (of_char c - 55)
      else None)"

definition hex4 :: "char \<Rightarrow> char \<Rightarrow> char \<Rightarrow> char \<Rightarrow> nat option" where
  "hex4 a b c d =
     (case (hex_val a, hex_val b, hex_val c, hex_val d) of
        (Some w, Some x, Some y, Some z) \<Rightarrow> Some (((w * 16 + x) * 16 + y) * 16 + z)
      | _ \<Rightarrow> None)"

definition utf8_encode :: "nat \<Rightarrow> string" where
  "utf8_encode cp =
     (if cp < 0x80 then [char_of cp]
      else if cp < 0x800 then [char_of (0xC0 + cp div 64), char_of (0x80 + cp mod 64)]
      else if cp < 0x10000 then
        [char_of (0xE0 + cp div 4096), char_of (0x80 + (cp div 64) mod 64),
         char_of (0x80 + cp mod 64)]
      else
        [char_of (0xF0 + cp div 262144), char_of (0x80 + (cp div 4096) mod 64),
         char_of (0x80 + (cp div 64) mod 64), char_of (0x80 + cp mod 64)])"

definition take_unicode :: "string \<Rightarrow> (string \<times> string) option" where
  "take_unicode r =
     (case r of
        a # b # c # d # r1 \<Rightarrow>
          (case hex4 a b c d of
             None \<Rightarrow> None
           | Some hi \<Rightarrow>
               (if 0xD800 \<le> hi \<and> hi < 0xDC00 then
                  (case r1 of
                     bs # u # e # f # g # h # r2 \<Rightarrow>
                       (if bs = CHR 0x5C \<and> u = CHR ''u'' then
                          (case hex4 e f g h of
                             Some lo \<Rightarrow>
                               if 0xDC00 \<le> lo \<and> lo < 0xE000
                               then Some (utf8_encode
                                        (0x10000 + (hi - 0xD800) * 1024 + (lo - 0xDC00)), r2)
                               else Some (utf8_encode hi, r1)
                           | None \<Rightarrow> Some (utf8_encode hi, r1))
                        else Some (utf8_encode hi, r1))
                   | _ \<Rightarrow> Some (utf8_encode hi, r1))
                else Some (utf8_encode hi, r1)))
      | _ \<Rightarrow> None)"

definition unescape :: "char \<Rightarrow> char option" where
  "unescape e =
     (if e = CHR 0x22 then Some (CHR 0x22)
      else if e = CHR 0x5C then Some (CHR 0x5C)
      else if e = CHR ''/'' then Some (CHR ''/'')
      else if e = CHR ''b'' then Some (CHR 0x08)
      else if e = CHR ''f'' then Some (CHR 0x0C)
      else if e = CHR ''n'' then Some (CHR 0x0A)
      else if e = CHR ''r'' then Some (CHR 0x0D)
      else if e = CHR ''t'' then Some (CHR 0x09)
      else None)"

lemma take_unicode_shorter: "take_unicode r = Some (b, r') \<Longrightarrow> length r' < length r"
  by (auto simp: take_unicode_def split: list.splits option.splits if_splits)

function parse_chars :: "string \<Rightarrow> (string \<times> string) option" where
  "parse_chars [] = None"
| "parse_chars (c # cs) =
     (if c = CHR 0x22 then Some ([], cs)
      else if c = CHR 0x5C then
        (case cs of
           [] \<Rightarrow> None
         | e # r \<Rightarrow>
             if e = CHR ''u'' then
               (case take_unicode r of
                  None \<Rightarrow> None
                | Some (bytes, r') \<Rightarrow>
                    (case parse_chars r' of
                       None \<Rightarrow> None
                     | Some (s, rest) \<Rightarrow> Some (bytes @ s, rest)))
             else
               (case unescape e of
                  None \<Rightarrow> None
                | Some x \<Rightarrow>
                    (case parse_chars r of
                       None \<Rightarrow> None
                     | Some (s, rest) \<Rightarrow> Some (x # s, rest))))
      else if (of_char c :: nat) < 32 then None
      else (case parse_chars cs of None \<Rightarrow> None | Some (s, rest) \<Rightarrow> Some (c # s, rest)))"
  by pat_completeness auto
termination
  by (relation "measure length") (auto dest: take_unicode_shorter)

declare parse_chars.simps [simp del]

lemma parse_chars_shorter: "parse_chars s = Some (k, r) \<Longrightarrow> length r < length s"
proof (induction s arbitrary: k r rule: parse_chars.induct)
  case 1
  then show ?case by (simp add: parse_chars.simps)
next
  case (2 c cs)
  show ?case
  proof (cases "c = CHR 0x22")
    case True
    with 2(4) show ?thesis by (simp add: parse_chars.simps)
  next
    case nq: False
    show ?thesis
    proof (cases "c = CHR 0x5C")
      case True
      then obtain e r0 where cs: "cs = e # r0"
        using 2(4) nq by (cases cs) (auto simp: parse_chars.simps)
      show ?thesis
      proof (cases "e = CHR ''u''")
        case eu: True
        from 2(4) nq True cs eu obtain bytes r' s' where
          tu: "take_unicode r0 = Some (bytes, r')" and pc: "parse_chars r' = Some (s', r)"
          by (auto simp: parse_chars.simps split: option.splits)
        from "2.IH"(1)[OF nq True cs eu tu refl pc] take_unicode_shorter[OF tu] cs
        show ?thesis by simp
      next
        case eu: False
        from 2(4) nq True cs eu obtain x s' where
          ue: "unescape e = Some x" and pc: "parse_chars r0 = Some (s', r)"
          by (auto simp: parse_chars.simps split: option.splits)
        from "2.IH"(2)[OF nq True cs eu ue pc] cs show ?thesis by simp
      qed
    next
      case nb: False
      from 2(4) nq nb obtain s' where lo: "\<not> (of_char c :: nat) < 32"
        and pc: "parse_chars cs = Some (s', r)"
        by (auto simp: parse_chars.simps split: option.splits if_splits)
      from "2.IH"(3)[OF nq nb lo pc] show ?thesis by simp
    qed
  qed
qed

subsection \<open>Numbers\<close>

definition parse_frac :: "string \<Rightarrow> (string \<times> string) option" where
  "parse_frac s =
     (case s of
        [] \<Rightarrow> Some ([], s)
      | c # cs \<Rightarrow>
          if c = CHR ''.'' then
            (if takeWhile is_digit cs = [] then None
             else Some (takeWhile is_digit cs, dropWhile is_digit cs))
          else Some ([], s))"

definition parse_exp :: "string \<Rightarrow> (int \<times> string) option" where
  "parse_exp s =
     (case s of
        [] \<Rightarrow> Some (0, s)
      | c # cs \<Rightarrow>
          if c = CHR ''e'' \<or> c = CHR ''E'' then
            (let neg = (cs \<noteq> [] \<and> hd cs = CHR ''-'');
                 t = (if cs \<noteq> [] \<and> (hd cs = CHR ''-'' \<or> hd cs = CHR ''+'') then tl cs else cs)
             in if takeWhile is_digit t = [] then None
                else Some ((if neg then - 1 else 1) * int (digits_val (takeWhile is_digit t)),
                           dropWhile is_digit t))
          else Some (0, s))"

text \<open>The value of sign, integer digits, fraction digits and exponent.\<close>

definition make_num :: "bool \<Rightarrow> string \<Rightarrow> string \<Rightarrow> int \<Rightarrow> jsnum" where
  "make_num neg ip fp ex =
     (let m = (if neg then - 1 else 1) * int (digits_val (ip @ fp)) in
      if int (length fp) \<le> ex then Dec (m * 10 ^ nat (ex - int (length fp))) 0
      else norm_dec m (nat (int (length fp) - ex)))"

definition parse_number :: "string \<Rightarrow> (jsnum \<times> string) option" where
  "parse_number s =
     (let neg = (s \<noteq> [] \<and> hd s = CHR ''-'');
          s1 = (if neg then tl s else s)
      in case s1 of
           [] \<Rightarrow> None
         | c # cs \<Rightarrow>
             if \<not> is_digit c then None
             else
               (let ip = (if c = CHR ''0'' then [c] else c # takeWhile is_digit cs);
                    s2 = (if c = CHR ''0'' then cs else dropWhile is_digit cs)
                in case parse_frac s2 of
                     None \<Rightarrow> None
                   | Some (fp, s3) \<Rightarrow>
                       (case parse_exp s3 of
                          None \<Rightarrow> None
                        | Some (ex, s4) \<Rightarrow> Some (make_num neg ip fp ex, s4))))"

subsection \<open>Values\<close>

lemma skip_ws_shorter: "skip_ws s = c # cs \<Longrightarrow> length cs < length s"
proof -
  assume a: "skip_ws s = c # cs"
  have "length (skip_ws s) \<le> length s" by (simp add: skip_ws_def length_dropWhile_le)
  with a show ?thesis by simp
qed

function parse_value :: "string \<Rightarrow> (jsval \<times> string) option"
and parse_elems :: "string \<Rightarrow> (jsval list \<times> string) option"
and parse_members :: "string \<Rightarrow> ((string \<times> jsval) list \<times> string) option" where
  "parse_value s =
     (case skip_ws s of
        [] \<Rightarrow> None
      | c # cs \<Rightarrow>
          if c = CHR 0x22 then
            (case parse_chars cs of None \<Rightarrow> None | Some (str, r) \<Rightarrow> Some (JStr str, r))
          else if c = CHR ''['' then
            (if skip_ws cs \<noteq> [] \<and> hd (skip_ws cs) = CHR '']''
             then Some (JArr [], tl (skip_ws cs))
             else (case parse_elems cs of None \<Rightarrow> None | Some (xs, r) \<Rightarrow> Some (JArr xs, r)))
          else if c = CHR ''{'' then
            (if skip_ws cs \<noteq> [] \<and> hd (skip_ws cs) = CHR ''}''
             then Some (JObj [], tl (skip_ws cs))
             else (case parse_members cs of
                     None \<Rightarrow> None
                   | Some (kvs, r) \<Rightarrow> Some (JObj (spread [] kvs), r)))
          else if take 4 (c # cs) = ''true'' then Some (JBool True, drop 4 (c # cs))
          else if take 5 (c # cs) = ''false'' then Some (JBool False, drop 5 (c # cs))
          else if take 4 (c # cs) = ''null'' then Some (JNull, drop 4 (c # cs))
          else (case parse_number (c # cs) of None \<Rightarrow> None | Some (n, r) \<Rightarrow> Some (JNum n, r)))"
| "parse_elems s =
     (case parse_value s of
        None \<Rightarrow> None
      | Some (v, r) \<Rightarrow>
          (case skip_ws r of
             [] \<Rightarrow> None
           | c # r' \<Rightarrow>
               if c = CHR '']'' then Some ([v], r')
               else if c = CHR '','' \<and> length r' < length s then
                 (case parse_elems r' of None \<Rightarrow> None | Some (vs, r'') \<Rightarrow> Some (v # vs, r''))
               else None))"
| "parse_members s =
     (case skip_ws s of
        [] \<Rightarrow> None
      | q # cs \<Rightarrow>
          if q \<noteq> CHR 0x22 then None
          else
            (case parse_chars cs of
               None \<Rightarrow> None
             | Some (k, r0) \<Rightarrow>
                 (case skip_ws r0 of
                    [] \<Rightarrow> None
                  | col # r1 \<Rightarrow>
                      if col \<noteq> CHR '':'' then None
                      else
                        (case parse_value r1 of
                           None \<Rightarrow> None
                         | Some (v, r) \<Rightarrow>
                             (case skip_ws r of
                                [] \<Rightarrow> None
                              | c # r' \<Rightarrow>
                                  if c = CHR ''}'' then Some ([(k, v)], r')
                                  else if c = CHR '','' \<and> length r' < length s then
                                    (case parse_members r' of
                                       None \<Rightarrow> None
                                     | Some (kvs, r'') \<Rightarrow> Some ((k, v) # kvs, r''))
                                  else None)))))"
  by pat_completeness auto
termination
proof (relation "measure (\<lambda>x. case x of Inl s \<Rightarrow> 2 * length s
                                 | Inr (Inl s) \<Rightarrow> 2 * length s + 1
                                 | Inr (Inr s) \<Rightarrow> 2 * length s + 1)", goal_cases)
  case 1
  then show ?case by simp
next
  case (2 s c cs)
  then show ?case using skip_ws_shorter[of s c cs] by simp
next
  case (3 s c cs)
  then show ?case using skip_ws_shorter[of s c cs] by simp
next
  case (4 s)
  then show ?case by simp
next
  case (5 s x2 v r c r')
  then show ?case by simp
next
  case (6 s q cs x2 k r0 col r1)
  then show ?case
    using skip_ws_shorter[of s q cs] parse_chars_shorter[of cs k r0] skip_ws_shorter[of r0 col r1]
    by simp
next
  case (7 s q cs x2 k r0 col r1 x2a v r c r')
  then show ?case by simp
qed

declare parse_value.simps [simp del] parse_elems.simps [simp del] parse_members.simps [simp del]

definition JSON_parse :: "string \<Rightarrow> jsval option" where
  "JSON_parse s =
     (case parse_value s of
        None \<Rightarrow> None
      | Some (v, r) \<Rightarrow> if skip_ws r = [] then Some v else None)"



section \<open>Error taxonomy (utils/errors.ts)\<close>

datatype error_class =
    C_OnePasswordApiError
  | C_RateLimitError
  | C_AuthenticationError
  | C_AuthorizationError
  | C_NotFoundError

record api_error =
  err_class :: error_class
  err_name :: string
  message :: string
  statusCode :: "nat option"
  code :: string
  retryable :: bool
  retryAfterSeconds :: "jsnum option"

text \<open>
  The constructors, as the classes write them: each subclass calls the base constructor
  and then sets its own name (and field). \<open>code || 'ONEPASSWORD_ERROR'\<close> takes the
  default for a missing or empty code.
\<close>

definition OnePasswordApiError :: "string \<Rightarrow> nat option \<Rightarrow> string option \<Rightarrow> bool \<Rightarrow> api_error" where
  "OnePasswordApiError msg sc c r =
     \<lparr>err_class = C_OnePasswordApiError, err_name = ''OnePasswordApiError'', message = msg,
      statusCode = sc,
      code = (case c of None \<Rightarrow> ''ONEPASSWORD_ERROR''
              | Some x \<Rightarrow> if x = [] then ''ONEPASSWORD_ERROR'' else x),
      retryable = r, retryAfterSeconds = None\<rparr>"

definition RateLimitError :: "string \<Rightarrow> jsnum \<Rightarrow> api_error" where
  "RateLimitError msg secs =
     (OnePasswordApiError msg (Some 429) (Some ''RATE_LIMIT_EXCEEDED'') True)
       \<lparr>err_class := C_RateLimitError, err_name := ''RateLimitError'',
        retryAfterSeconds := Some secs\<rparr>"

definition AuthenticationError :: "string \<Rightarrow> api_error" where
  "AuthenticationError msg =
     (OnePasswordApiError msg (Some 401) (Some ''AUTHENTICATION_FAILED'') False)
       \<lparr>err_class := C_AuthenticationError, err_name := ''AuthenticationError''\<rparr>"

definition AuthorizationError :: "string \<Rightarrow> api_error" where
  "AuthorizationError msg =
     (OnePasswordApiError msg (Some 403) (Some ''AUTHORIZATION_FAILED'') False)
       \<lparr>err_class := C_AuthorizationError, err_name := ''AuthorizationError''\<rparr>"

definition NotFoundError :: "string \<Rightarrow> string \<Rightarrow> api_error" where
  "NotFoundError entityType ident =
     (OnePasswordApiError (entityType @ '' with ID '' @ [CHR 0x27] @ ident @ [CHR 0x27] @ '' not found'')
        (Some 404) (Some ''NOT_FOUND'') False)
       \<lparr>err_class := C_NotFoundError, err_name := ''NotFoundError''\<rparr>"

text \<open>
  What a \<open>throw\<close> or a rejected promise carries: one of the gateway's errors, a plain
  \<open>Error\<close> of the engine or of the gateway (name and message), or any other value.
\<close>

datatype thrown = Api api_error | Plain string string | NonError jsval

fun instanceof_Error :: "thrown \<Rightarrow> bool" where
  "instanceof_Error (Api e) = True"
| "instanceof_Error (Plain n m) = True"
| "instanceof_Error (NonError v) = False"

fun thrown_message :: "thrown \<Rightarrow> string" where
  "thrown_message (Api e) = message e"
| "thrown_message (Plain n m) = m"
| "thrown_message (NonError v) = []"

text \<open>
  The engine's own errors. The message texts are V8's; the text of the syntax error of
  \<open>JSON.parse\<close> depends on the engine and on the input, and one text stands for all
  of them here: only that a \<open>SyntaxError\<close> is thrown is modelled, not what it says.
\<close>

definition SyntaxError_json :: thrown where
  "SyntaxError_json = Plain ''SyntaxError'' ''Unexpected end of JSON input''"

definition TypeError_primitive :: thrown where
  "TypeError_primitive = Plain ''TypeError'' ''Cannot convert object to primitive value''"

definition TypeError_read :: "jsval \<Rightarrow> string \<Rightarrow> thrown" where
  "TypeError_read v k =
     Plain ''TypeError''
       (''Cannot read properties of '' @ (if v = JNull then ''null'' else ''undefined'') @
        '' (reading '' @ [CHR 0x27] @ k @ [CHR 0x27] @ '')'')"

text \<open>
  Reading a property that no prototype defines (\<open>message\<close>, \<open>error\<close>, \<open>name\<close>,
  \<open>version\<close>): an object gives its own property, \<open>null\<close> and \<open>undefined\<close> throw, every
  other value gives \<open>undefined\<close>.
\<close>

fun get_prop :: "jsval \<Rightarrow> string \<Rightarrow> thrown + jsval" where
  "get_prop JUndefined k = Inl (TypeError_read JUndefined k)"
| "get_prop JNull k = Inl (TypeError_read JNull k)"
| "get_prop (JObj kvs) k = Inr (obj_get kvs k)"
| "get_prop v k = Inr JUndefined"

text \<open>The length of a string in UTF-16 code units, from its UTF-8 bytes.\<close>

definition utf16_length :: "string \<Rightarrow> nat" where
  "utf16_length s =
     length (filter (\<lambda>c. \<not> (128 \<le> (of_char c :: nat) \<and> (of_char c :: nat) < 192)) s) +
     length (filter (\<lambda>c. 240 \<le> (of_char c :: nat)) s)"

fun js_length :: "jsval \<Rightarrow> thrown + jsval" where
  "js_length JUndefined = Inl (TypeError_read JUndefined ''length'')"
| "js_length JNull = Inl (TypeError_read JNull ''length'')"
| "js_length (JArr xs) = Inr (JNum (Dec (int (length xs)) 0))"
| "js_length (JStr s) = Inr (JNum (Dec (int (utf16_length s)) 0))"
| "js_length (JObj kvs) = Inr (obj_get kvs ''length'')"
| "js_length v = Inr JUndefined"

text \<open>
  \<open>parseInt(s, 10)\<close>: leading white space, an optional sign, then the longest run of
  decimal digits; \<open>NaN\<close> when there is no digit. White space is what \<open>StrWhiteSpaceChar\<close>
  is: the ASCII tab, line feed, vertical tab, form feed, carriage return and space, and,
  in their UTF-8 bytes, U+00A0, U+1680, U+2000 to U+200A, U+2028, U+2029, U+202F, U+205F,
  U+3000 and U+FEFF. The integer is kept exact (the engine rounds one beyond 2^53 to a
  double).
\<close>

definition is_js_ws :: "char \<Rightarrow> bool" where
  "is_js_ws c = (c \<in> set [CHR 0x09, CHR 0x0A, CHR 0x0B, CHR 0x0C, CHR 0x0D, CHR 0x20])"

text \<open>The white space characters of three bytes.\<close>

definition is_js_ws3 :: "char \<Rightarrow> char \<Rightarrow> char \<Rightarrow> bool" where
  "is_js_ws3 a b c =
     ((a = CHR 0xE1 \<and> b = CHR 0x9A \<and> c = CHR 0x80) \<or>
      (a = CHR 0xE2 \<and> b = CHR 0x80 \<and>
         ((128 \<le> (of_char c :: nat) \<and> (of_char c :: nat) \<le> 138) \<or>
          c = CHR 0xA8 \<or> c = CHR 0xA9 \<or> c = CHR 0xAF)) \<or>
      (a = CHR 0xE2 \<and> b = CHR 0x81 \<and> c = CHR 0x9F) \<or>
      (a = CHR 0xE3 \<and> b = CHR 0x80 \<and> c = CHR 0x80) \<or>
      (a = CHR 0xEF \<and> b = CHR 0xBB \<and> c = CHR 0xBF))"

text \<open>The number of bytes of the white space character a string starts with, or 0.\<close>

fun js_ws_length :: "string \<Rightarrow> nat" where
  "js_ws_length [] = 0"
| "js_ws_length [a] = (if is_js_ws a then 1 else 0)"
| "js_ws_length [a, b] =
     (if is_js_ws a then 1 else if a = CHR 0xC2 \<and> b = CHR 0xA0 then 2 else 0)"
| "js_ws_length (a # b # c # s) =
     (if is_js_ws a then 1 else if a = CHR 0xC2 \<and> b = CHR 0xA0 then 2
      else if is_js_ws3 a b c then 3 else 0)"

lemma js_ws_length_shorter:
  "0 < js_ws_length s \<Longrightarrow> length s - js_ws_length s < length s"
  by (cases s) auto

function drop_js_ws :: "string \<Rightarrow> string" where
  "drop_js_ws s = (if js_ws_length s = 0 then s else drop_js_ws (drop (js_ws_length s) s))"
  by pat_completeness auto
termination
  by (relation "measure length") (simp_all add: js_ws_length_shorter)

declare drop_js_ws.simps [simp del]

definition parseInt10 :: "string \<Rightarrow> jsnum" where
  "parseInt10 s =
     (let t = drop_js_ws s;
          neg = (t \<noteq> [] \<and> hd t = CHR ''-'');
          u = (if t \<noteq> [] \<and> (hd t = CHR ''-'' \<or> hd t = CHR ''+'') then tl t else t);
          ds = takeWhile is_digit u
      in if ds = [] then NaN else Dec ((if neg then - 1 else 1) * int (digits_val ds)) 0)"

section \<open>Tenant credentials (types/env.ts)\<close>

record TenantCredentials =
  connectToken :: "string option"
  connectHost :: "string option"

text \<open>
  The inbound request, as the worker reads it: the path of its URL, its method, and its
  headers through \<open>headers.get\<close> (\<open>None\<close> is \<open>null\<close>: the header is absent).
\<close>

record worker_request =
  pathname :: string
  req_method :: string
  headers_get :: "string \<Rightarrow> string option"

text \<open>\<open>headers.get(name) || undefined\<close>: an absent and an empty header both give \<open>undefined\<close>.\<close>

definition or_undefined :: "string option \<Rightarrow> string option" where
  "or_undefined v = (case v of None \<Rightarrow> None | Some s \<Rightarrow> if s = [] then None else Some s)"

definition parseTenantCredentials :: "worker_request \<Rightarrow> TenantCredentials" where
  "parseTenantCredentials request =
     \<lparr>connectToken = or_undefined (headers_get request ''X-1Password-Connect-Token''),
      connectHost = or_undefined (headers_get request ''X-1Password-Connect-Host'')\<rparr>"

text \<open>\<open>!s\<close> for an optional string: \<open>undefined\<close> and the empty string are falsy.\<close>

definition falsy_str :: "string option \<Rightarrow> bool" where
  "falsy_str v = (case v of None \<Rightarrow> True | Some s \<Rightarrow> s = [])"

definition validateCredentials :: "TenantCredentials \<Rightarrow> thrown + unit" where
  "validateCredentials credentials =
     (if falsy_str (connectToken credentials) then
        Inl (Plain ''Error''
          ''Missing X-1Password-Connect-Token header. Provide your Connect server token.'')
      else if falsy_str (connectHost credentials) then
        Inl (Plain ''Error''
          ''Missing X-1Password-Connect-Host header. Provide your Connect server URL (e.g., http://localhost:8080).'')
      else Inr ())"


section \<open>The Connect client (client.ts)\<close>

subsection \<open>The platform: URL encoding, fetch\<close>

definition hex_upper :: "nat \<Rightarrow> char" where
  "hex_upper n = ''0123456789ABCDEF'' ! n"

definition percent_byte :: "char \<Rightarrow> string" where
  "percent_byte c = [CHR ''%'', hex_upper (of_char c div 16), hex_upper (of_char c mod 16)]"

definition uri_unreserved :: "char \<Rightarrow> bool" where
  "uri_unreserved c =
     (c \<in> set (''ABCDEFGHIJKLMNOPQRSTUVWXYZabcdefghijklmnopqrstuvwxyz0123456789-_.!~*()'' @
               [CHR 0x27]))"

definition encodeURIComponent :: "string \<Rightarrow> string" where
  "encodeURIComponent s = concat (map (\<lambda>c. if uri_unreserved c then [c] else percent_byte c) s)"

text \<open>\<open>URLSearchParams.toString\<close>: the application/x-www-form-urlencoded serializer.\<close>

definition form_safe :: "char \<Rightarrow> bool" where
  "form_safe c =
     (c \<in> set ''ABCDEFGHIJKLMNOPQRSTUVWXYZabcdefghijklmnopqrstuvwxyz0123456789*-._'')"

definition form_urlencode :: "string \<Rightarrow> string" where
  "form_urlencode s =
     concat (map (\<lambda>c. if c = CHR '' '' then ''+'' else if form_safe c then [c]
                       else percent_byte c) s)"

definition URLSearchParams_toString :: "(string \<times> string) list \<Rightarrow> string" where
  "URLSearchParams_toString ps =
     join_with ''&'' (map (\<lambda>(k, v). form_urlencode k @ ''='' @ form_urlencode v) ps)"

text \<open>What \<open>fetch(url, init)\<close> is called with, and the response it resolves to.\<close>

record fetch_request =
  url :: string
  http_method :: "string option"
  headers :: "(string \<times> string) list"
  body :: "string option"

record http_response =
  status :: nat
  response_header :: "string \<Rightarrow> string option"
  response_text :: string

text \<open>
  The network is a parameter: it maps the request to a response, or rejects.
\<close>

type_synonym network = "fetch_request \<Rightarrow> thrown + http_response"

definition response_ok :: "http_response \<Rightarrow> bool" where
  "response_ok response = (200 \<le> status response \<and> status response \<le> 299)"

definition response_json :: "http_response \<Rightarrow> thrown + jsval" where
  "response_json response =
     (case JSON_parse (response_text response) of
        None \<Rightarrow> Inl SyntaxError_json
      | Some v \<Rightarrow> Inr v)"

text \<open>The \<open>RequestInit\<close> options a method passes to the request helper.\<close>

record request_init =
  init_method :: "string option"
  init_headers :: "(string \<times> string) list option"
  init_body :: "string option"

definition no_options :: request_init where
  "no_options = \<lparr>init_method = None, init_headers = None, init_body = None\<rparr>"

subsection \<open>Construction\<close>

record OnePasswordClientImpl =
  credentials :: TenantCredentials
  baseUrl :: string

text \<open>\<open>replace(/\/$/, '')\<close>: one trailing slash is removed.\<close>

definition strip_trailing_slash :: "string \<Rightarrow> string" where
  "strip_trailing_slash h = (if h \<noteq> [] \<and> last h = CHR ''/'' then butlast h else h)"

definition client_host :: "string option \<Rightarrow> string" where
  "client_host h =
     (case h of
        None \<Rightarrow> ''http://localhost:8080''
      | Some x \<Rightarrow>
          if strip_trailing_slash x = [] then ''http://localhost:8080''
          else strip_trailing_slash x)"

definition createOnePasswordClient :: "TenantCredentials \<Rightarrow> OnePasswordClientImpl" where
  "createOnePasswordClient c =
     \<lparr>credentials = c, baseUrl = client_host (connectHost c) @ ''/v1''\<rparr>"

subsection \<open>The request helpers\<close>

definition getAuthHeaders :: "OnePasswordClientImpl \<Rightarrow> thrown + (string \<times> string) list" where
  "getAuthHeaders this =
     (if falsy_str (connectToken (credentials this)) then
        Inl (Api (AuthenticationError
          ''No Connect token provided. Include X-1Password-Connect-Token header.''))
      else
        Inr [(''Authorization'', ''Bearer '' @ the (connectToken (credentials this))),
             (''Content-Type'', ''application/json'')])"

text \<open>
  The arguments of the \<open>fetch\<close> call in \<open>request\<close> and \<open>requestRaw\<close>:
  \<open>fetch(url, {...options, headers: {...this.getAuthHeaders(), ...(options.headers || {})}})\<close>.
\<close>

definition fetch_args :: "OnePasswordClientImpl \<Rightarrow> string \<Rightarrow> request_init \<Rightarrow> thrown + fetch_request" where
  "fetch_args this endpoint options =
     (case getAuthHeaders this of
        Inl e \<Rightarrow> Inl e
      | Inr auth \<Rightarrow>
          Inr \<lparr>url = baseUrl this @ endpoint,
               http_method = init_method options,
               headers = spread (spread [] auth)
                           (case init_headers options of None \<Rightarrow> [] | Some h \<Rightarrow> h),
               body = init_body options\<rparr>)"

text \<open>
  The message of the generic error: \<open>errorJson.message || errorJson.error || message\<close>
  inside \<open>try\<close>, where a failing parse or property read keeps the default.
\<close>

definition error_message :: "string \<Rightarrow> nat \<Rightarrow> jsval" where
  "error_message errorBody st =
     (let dflt = JStr (''API error: '' @ show_nat st) in
      case JSON_parse errorBody of
        None \<Rightarrow> dflt
      | Some errorJson \<Rightarrow>
          (case get_prop errorJson ''message'' of
             Inl e \<Rightarrow> dflt
           | Inr m \<Rightarrow>
               if truthy m then m
               else (case get_prop errorJson ''error'' of
                       Inl e \<Rightarrow> dflt
                     | Inr er \<Rightarrow> if truthy er then er else dflt)))"

text \<open>\<open>request\<close> from the response on: the status is mapped to the error taxonomy.\<close>

definition request_result :: "string \<Rightarrow> http_response \<Rightarrow> thrown + jsval" where
  "request_result endpoint response =
     (if status response = 429 then
        Inl (Api (RateLimitError ''Rate limit exceeded''
          (case response_header response ''Retry-After'' of
             None \<Rightarrow> Dec 60 0
           | Some retryAfter \<Rightarrow> if retryAfter = [] then Dec 60 0 else parseInt10 retryAfter)))
      else if status response = 401 then
        Inl (Api (AuthenticationError ''Authentication failed. Check your Connect token.''))
      else if status response = 403 then
        Inl (Api (AuthorizationError
          ''Authorization failed. Check your service account permissions.''))
      else if status response = 404 then
        Inl (Api (NotFoundError ''Resource'' endpoint))
      else if \<not> response_ok response then
        (case js_to_string (error_message (response_text response) (status response)) of
           None \<Rightarrow> Inl TypeError_primitive
         | Some msg \<Rightarrow> Inl (Api (OnePasswordApiError msg (Some (status response)) None False)))
      else if status response = 204 then Inr JUndefined
      else response_json response)"

definition request :: "OnePasswordClientImpl \<Rightarrow> network \<Rightarrow> string \<Rightarrow> request_init \<Rightarrow> thrown + jsval" where
  "request this net endpoint options =
     (case fetch_args this endpoint options of
        Inl e \<Rightarrow> Inl e
      | Inr rq \<Rightarrow>
          (case net rq of
             Inl e \<Rightarrow> Inl e
           | Inr response \<Rightarrow> request_result endpoint response))"

text \<open>\<open>requestRaw\<close> resolves to the bytes of the body.\<close>

definition requestRaw :: "OnePasswordClientImpl \<Rightarrow> network \<Rightarrow> string \<Rightarrow> request_init \<Rightarrow> thrown + string" where
  "requestRaw this net endpoint options =
     (case fetch_args this endpoint options of
        Inl e \<Rightarrow> Inl e
      | Inr rq \<Rightarrow>
          (case net rq of
             Inl e \<Rightarrow> Inl e
           | Inr response \<Rightarrow>
               if \<not> response_ok response then
                 (if status response = 401 then
                    Inl (Api (AuthenticationError
                      ''Authentication failed. Check your Connect token.''))
                  else if status response = 403 then
                    Inl (Api (AuthorizationError
                      ''Authorization failed. Check your service account permissions.''))
                  else if status response = 404 then
                    Inl (Api (NotFoundError ''File'' endpoint))
                  else
                    Inl (Api (OnePasswordApiError
                      (''API error: '' @ show_nat (status response))
                      (Some (status response)) None False)))
               else Inr (response_text response)))"


subsection \<open>Connection and health\<close>





definition heartbeat_args :: "OnePasswordClientImpl \<Rightarrow> thrown + fetch_request" where
  "heartbeat_args this =
     (case getAuthHeaders this of
        Inl e \<Rightarrow> Inl e
      | Inr auth \<Rightarrow>
          Inr \<lparr>url = baseUrl this @ ''/heartbeat'', http_method = None, headers = auth,
               body = None\<rparr>)"

definition heartbeat :: "OnePasswordClientImpl \<Rightarrow> network \<Rightarrow> thrown + string" where
  "heartbeat this net =
     (case heartbeat_args this of
        Inl e \<Rightarrow> Inl e
      | Inr rq \<Rightarrow>
          (case net rq of
             Inl e \<Rightarrow> Inl e
           | Inr response \<Rightarrow>
               if \<not> response_ok response then
                 Inl (Api (OnePasswordApiError
                   (''Heartbeat failed: '' @ show_nat (status response))
                   (Some (status response)) None False))
               else Inr (response_text response)))"

subsection \<open>Vaults, items, files\<close>

text \<open>The query string of an optional, truthy \<open>filter\<close>.\<close>

definition filter_query :: "string option \<Rightarrow> string" where
  "filter_query flt =
     URLSearchParams_toString
       (if falsy_str flt then [] else [(''filter'', the flt)])"

definition with_query :: "string \<Rightarrow> string \<Rightarrow> string" where
  "with_query path query = (if query = [] then path else path @ ''?'' @ query)"

definition listVaults :: "OnePasswordClientImpl \<Rightarrow> network \<Rightarrow> string option \<Rightarrow> thrown + jsval" where
  "listVaults this net flt = request this net (with_query ''/vaults'' (filter_query flt)) no_options"

definition getVault :: "OnePasswordClientImpl \<Rightarrow> network \<Rightarrow> string \<Rightarrow> thrown + jsval" where
  "getVault this net vaultId =
     request this net (''/vaults/'' @ encodeURIComponent vaultId) no_options"

definition items_path :: "string \<Rightarrow> string" where
  "items_path vaultId = ''/vaults/'' @ encodeURIComponent vaultId @ ''/items''"

definition item_path :: "string \<Rightarrow> string \<Rightarrow> string" where
  "item_path vaultId itemId =
     ''/vaults/'' @ encodeURIComponent vaultId @ ''/items/'' @ encodeURIComponent itemId"

definition listItems :: "OnePasswordClientImpl \<Rightarrow> network \<Rightarrow> string \<Rightarrow> string option \<Rightarrow> thrown + jsval" where
  "listItems this net vaultId flt =
     request this net (with_query (items_path vaultId) (filter_query flt)) no_options"

definition getItem :: "OnePasswordClientImpl \<Rightarrow> network \<Rightarrow> string \<Rightarrow> string \<Rightarrow> thrown + jsval" where
  "getItem this net vaultId itemId = request this net (item_path vaultId itemId) no_options"

text \<open>
  \<open>createItem\<close>: \<open>{...item, vault: {id: vaultId}}\<close> is serialized as the body of a POST.
  The item is the list of its properties.
\<close>

definition itemWithVault :: "string \<Rightarrow> (string \<times> jsval) list \<Rightarrow> jsval" where
  "itemWithVault vaultId item =
     JObj (obj_set (spread [] item) ''vault'' (JObj [(''id'', JStr vaultId)]))"

definition createItem :: "OnePasswordClientImpl \<Rightarrow> network \<Rightarrow> string \<Rightarrow> (string \<times> jsval) list \<Rightarrow> thrown + jsval" where
  "createItem this net vaultId item =
     request this net (items_path vaultId)
       \<lparr>init_method = Some ''POST'', init_headers = None,
        init_body = JSON_stringify [] (itemWithVault vaultId item)\<rparr>"

definition itemWithIds :: "string \<Rightarrow> string \<Rightarrow> (string \<times> jsval) list \<Rightarrow> jsval" where
  "itemWithIds vaultId itemId item =
     JObj (obj_set (obj_set (spread [] item) ''id'' (JStr itemId))
             ''vault'' (JObj [(''id'', JStr vaultId)]))"

definition updateItem :: "OnePasswordClientImpl \<Rightarrow> network \<Rightarrow> string \<Rightarrow> string \<Rightarrow> (string \<times> jsval) list \<Rightarrow> thrown + jsval" where
  "updateItem this net vaultId itemId item =
     request this net (item_path vaultId itemId)
       \<lparr>init_method = Some ''PUT'', init_headers = None,
        init_body = JSON_stringify [] (itemWithIds vaultId itemId item)\<rparr>"

text \<open>\<open>patchItem\<close>: the operation array is serialized as it is given.\<close>

definition patchItem :: "OnePasswordClientImpl \<Rightarrow> network \<Rightarrow> string \<Rightarrow> string \<Rightarrow> jsval list \<Rightarrow> thrown + jsval" where
  "patchItem this net vaultId itemId operations =
     request this net (item_path vaultId itemId)
       \<lparr>init_method = Some ''PATCH'',
        init_headers = Some [(''Content-Type'', ''application/json-patch+json'')],
        init_body = JSON_stringify [] (JArr operations)\<rparr>"

definition deleteItem :: "OnePasswordClientImpl \<Rightarrow> network \<Rightarrow> string \<Rightarrow> string \<Rightarrow> thrown + unit" where
  "deleteItem this net vaultId itemId =
     (case request this net (item_path vaultId itemId)
             \<lparr>init_method = Some ''DELETE'', init_headers = None, init_body = None\<rparr> of
        Inl e \<Rightarrow> Inl e
      | Inr v \<Rightarrow> Inr ())"

definition inline_query :: "bool option \<Rightarrow> string" where
  "inline_query inlineContent =
     URLSearchParams_toString
       (case inlineContent of
          None \<Rightarrow> []
        | Some b \<Rightarrow> [(''inline_content'', if b then ''true'' else ''false'')])"

definition listFiles :: "OnePasswordClientImpl \<Rightarrow> network \<Rightarrow> string \<Rightarrow> string \<Rightarrow> bool option \<Rightarrow> thrown + jsval" where
  "listFiles this net vaultId itemId inlineContent =
     request this net
       (with_query (item_path vaultId itemId @ ''/files'') (inline_query inlineContent))
       no_options"

definition getFile :: "OnePasswordClientImpl \<Rightarrow> network \<Rightarrow> string \<Rightarrow> string \<Rightarrow> string \<Rightarrow> bool option \<Rightarrow> thrown + jsval" where
  "getFile this net vaultId itemId fileId inlineContent =
     request this net
       (with_query (item_path vaultId itemId @ ''/files/'' @ encodeURIComponent fileId)
          (inline_query inlineContent))
       no_options"

definition getFileContent :: "OnePasswordClientImpl \<Rightarrow> network \<Rightarrow> string \<Rightarrow> string \<Rightarrow> string \<Rightarrow> thrown + string" where
  "getFileContent this net vaultId itemId fileId =
     requestRaw this net
       (item_path vaultId itemId @ ''/files/'' @ encodeURIComponent fileId @ ''/content'')
       no_options"

subsection \<open>Activity\<close>

record PaginationParams =
  limit :: "jsnum option"
  offset :: "jsnum option"

record PaginatedResponse =
  items :: jsval
  count :: jsval
  hasMore :: bool

text \<open>\<open>params?.limit\<close> is set when it is a truthy number: neither absent, zero nor NaN.\<close>

definition truthy_num :: "jsnum option \<Rightarrow> bool" where
  "truthy_num n = (case n of None \<Rightarrow> False | Some x \<Rightarrow> truthy (JNum x))"

definition activity_query :: "PaginationParams option \<Rightarrow> string" where
  "activity_query params =
     URLSearchParams_toString
       ((if params \<noteq> None \<and> truthy_num (limit (the params))
         then [(''limit'', Number_toString (the (limit (the params))))] else []) @
        (if params \<noteq> None \<and> truthy_num (offset (the params))
         then [(''offset'', Number_toString (the (offset (the params))))] else []))"

definition listActivity :: "OnePasswordClientImpl \<Rightarrow> network \<Rightarrow> PaginationParams option \<Rightarrow> thrown + PaginatedResponse" where
  "listActivity this net params =
     (case request this net (with_query ''/activity'' (activity_query params)) no_options of
        Inl e \<Rightarrow> Inl e
      | Inr its \<Rightarrow>
          (case js_length its of
             Inl e \<Rightarrow> Inl e
           | Inr len \<Rightarrow> Inr \<lparr>items = its, count = len, hasMore = False\<rparr>))"


section \<open>Response formatting (utils/formatters.ts)\<close>

record content_block =
  block_type :: string
  block_text :: "string option"

record ToolResponse =
  content :: "content_block list"
  isError :: "bool option"

text \<open>
  \<open>formatResponse\<close>. The Markdown renderer \<open>formatAsMarkdown\<close> is a parameter.
\<close>

definition formatResponse :: "(jsval \<Rightarrow> string \<Rightarrow> string) \<Rightarrow> jsval \<Rightarrow> string \<Rightarrow> string \<Rightarrow> ToolResponse" where
  "formatResponse formatAsMarkdown data format entityType =
     (if format = ''markdown'' then
        \<lparr>content = [\<lparr>block_type = ''text'',
                      block_text = Some (formatAsMarkdown data entityType)\<rparr>],
         isError = None\<rparr>
      else
        \<lparr>content = [\<lparr>block_type = ''text'', block_text = JSON_stringify ''  '' data\<rparr>],
         isError = None\<rparr>)"

section \<open>Item tools (tools/items.ts)\<close>

text \<open>
  The object the create-item handler passes to \<open>client.createItem\<close>; an argument the
  caller left out is \<open>undefined\<close>.
\<close>

definition create_item_input :: "string \<Rightarrow> string \<Rightarrow> string \<Rightarrow> jsval \<Rightarrow> jsval \<Rightarrow> jsval \<Rightarrow> jsval \<Rightarrow> jsval \<Rightarrow> (string \<times> jsval) list" where
  "create_item_input vaultId title category flds sections urls tags favorite =
     [(''title'', JStr title), (''category'', JStr category),
      (''vault'', JObj [(''id'', JStr vaultId)]),
      (''fields'', flds), (''sections'', sections), (''urls'', urls),
      (''tags'', tags), (''favorite'', favorite)]"

text \<open>The handlers; the error renderer \<open>formatError\<close> is a parameter.\<close>

definition tool_create_item :: "(thrown \<Rightarrow> ToolResponse) \<Rightarrow> OnePasswordClientImpl \<Rightarrow> network \<Rightarrow> string \<Rightarrow> string \<Rightarrow> string \<Rightarrow> jsval \<Rightarrow> jsval \<Rightarrow> jsval \<Rightarrow> jsval \<Rightarrow> jsval \<Rightarrow> ToolResponse" where
  "tool_create_item formatError client net vaultId title category flds sections urls tags favorite =
     (case createItem client net vaultId
             (create_item_input vaultId title category flds sections urls tags favorite) of
        Inr item \<Rightarrow>
          \<lparr>content = [\<lparr>block_type = ''text'',
                        block_text = JSON_stringify ''  ''
                          (JObj [(''success'', JBool True),
                                 (''message'', JStr ''Item created''),
                                 (''item'', item)])\<rparr>],
           isError = None\<rparr>
      | Inl error \<Rightarrow> formatError error)"

definition tool_patch_item :: "(thrown \<Rightarrow> ToolResponse) \<Rightarrow> OnePasswordClientImpl \<Rightarrow> network \<Rightarrow> string \<Rightarrow> string \<Rightarrow> jsval list \<Rightarrow> ToolResponse" where
  "tool_patch_item formatError client net vaultId itemId operations =
     (case patchItem client net vaultId itemId operations of
        Inr item \<Rightarrow>
          \<lparr>content = [\<lparr>block_type = ''text'',
                        block_text = JSON_stringify ''  ''
                          (JObj [(''success'', JBool True),
                                 (''message'', JStr ''Item patched''),
                                 (''item'', item)])\<rparr>],
           isError = None\<rparr>
      | Inl error \<Rightarrow> formatError error)"

section \<open>The worker (index.ts)\<close>

definition SERVER_NAME :: string where
  "SERVER_NAME = ''primrose-mcp-1password''"

definition SERVER_VERSION :: string where
  "SERVER_VERSION = ''1.0.0''"

record McpServer =
  server_name :: string
  server_version :: string
  server_client :: OnePasswordClientImpl

text \<open>
  \<open>createStatelessServer\<close>: a server whose tools are all registered on one client, built
  from the credentials it is given.
\<close>

definition createStatelessServer :: "TenantCredentials \<Rightarrow> McpServer" where
  "createStatelessServer creds =
     \<lparr>server_name = SERVER_NAME, server_version = SERVER_VERSION,
      server_client = createOnePasswordClient creds\<rparr>"

record worker_response =
  res_status :: nat
  res_headers :: "(string \<times> string) list"
  res_body :: "string option"

text \<open>
  The handler either answers by itself, or hands the request to the protocol runtime's
  handler for a server (\<open>createMcpHandler(server)(request, env, ctx)\<close>), which alone
  dispatches tools.
\<close>

datatype worker_result = Respond worker_response | Dispatch McpServer

definition json_headers :: "(string \<times> string) list" where
  "json_headers = [(''Content-Type'', ''application/json'')]"

definition unauthorized_body :: "thrown \<Rightarrow> jsval" where
  "unauthorized_body error =
     JObj [(''error'', JStr ''Unauthorized''),
           (''message'', JStr (if instanceof_Error error then thrown_message error
                               else ''Invalid credentials'')),
           (''required_headers'',
              JArr [JStr ''X-1Password-Connect-Token'', JStr ''X-1Password-Connect-Host''])]"

definition default_body :: jsval where
  "default_body =
     JObj [(''name'', JStr SERVER_NAME),
           (''version'', JStr SERVER_VERSION),
           (''description'', JStr ''1Password Connect MCP Server''),
           (''endpoints'',
              JObj [(''mcp'', JStr ''/mcp (POST) - Streamable HTTP MCP endpoint''),
                    (''health'', JStr ''/health - Health check'')]),
           (''authentication'',
              JObj [(''description'', JStr ''Pass tenant credentials via request headers''),
                    (''required_headers'',
                       JObj [(''X-1Password-Connect-Token'',
                                JStr ''Your 1Password Connect server token''),
                             (''X-1Password-Connect-Host'',
                                JStr ''URL of your Connect server (e.g., http://localhost:8080)'')])]),
           (''tools'',
              JArr [JStr ''1password_list_vaults - List all vaults'',
                    JStr ''1password_get_vault - Get vault details'',
                    JStr ''1password_list_items - List items in a vault'',
                    JStr ''1password_get_item - Get item details'',
                    JStr ''1password_create_item - Create a new item'',
                    JStr ''1password_update_item - Update an item (full replace)'',
                    JStr ''1password_patch_item - Patch an item (partial update)'',
                    JStr ''1password_delete_item - Delete an item'',
                    JStr ''1password_list_files - List files attached to an item'',
                    JStr ''1password_get_file - Get file details'',
                    JStr ''1password_get_file_content - Download file content'',
                    JStr ''1password_list_activity - Get API activity log'',
                    JStr ''1password_get_health - Get server health status'',
                    JStr ''1password_heartbeat - Ping the server'',
                    JStr ''1password_test_connection - Test the connection''])]"

definition worker_fetch :: "worker_request \<Rightarrow> worker_result" where
  "worker_fetch req =
     (if pathname req = ''/health'' then
        Respond \<lparr>res_status = 200, res_headers = json_headers,
                 res_body = JSON_stringify []
                   (JObj [(''status'', JStr ''ok''), (''server'', JStr SERVER_NAME)])\<rparr>
      else if pathname req = ''/mcp'' \<and> req_method req = ''POST'' then
        (case validateCredentials (parseTenantCredentials req) of
           Inl error \<Rightarrow>
             Respond \<lparr>res_status = 401, res_headers = json_headers,
                      res_body = JSON_stringify [] (unauthorized_body error)\<rparr>
         | Inr ok \<Rightarrow> Dispatch (createStatelessServer (parseTenantCredentials req)))
      else if pathname req = ''/sse'' then
        Respond \<lparr>res_status = 501, res_headers = [],
                 res_body = Some ''SSE endpoint requires Durable Objects. Enable in wrangler.jsonc.''\<rparr>
      else
        Respond \<lparr>res_status = 200, res_headers = json_headers,
                 res_body = JSON_stringify [] default_body\<rparr>)"

section \<open>Values that JSON can carry\<close>

text \<open>
  A well-formed value: every finite number is in normal form and no object holds a key
  twice.
\<close>

fun wf_val :: "jsval \<Rightarrow> bool"
and wf_elems :: "jsval list \<Rightarrow> bool"
and wf_members :: "(string \<times> jsval) list \<Rightarrow> bool" where
  "wf_val (JNum n) = (n = NaN \<or> num_ok n)"
| "wf_val (JArr xs) = wf_elems xs"
| "wf_val (JObj kvs) = (distinct (map fst kvs) \<and> wf_members kvs)"
| "wf_val JUndefined = True"
| "wf_val JNull = True"
| "wf_val (JBool b) = True"
| "wf_val (JStr s) = True"
| "wf_elems [] = True"
| "wf_elems (x # xs) = (wf_val x \<and> wf_elems xs)"
| "wf_members [] = True"
| "wf_members ((k, v) # kvs) = (wf_val v \<and> wf_members kvs)"

text \<open>
  What is left of a value after \<open>JSON.stringify\<close>: \<open>undefined\<close> and \<open>NaN\<close> become \<open>null\<close>,
  except that an \<open>undefined\<close> property is dropped.
\<close>

fun clean :: "jsval \<Rightarrow> jsval"
and clean_elems :: "jsval list \<Rightarrow> jsval list"
and clean_members :: "(string \<times> jsval) list \<Rightarrow> (string \<times> jsval) list" where
  "clean JUndefined = JNull"
| "clean JNull = JNull"
| "clean (JBool b) = JBool b"
| "clean (JNum n) = (if n = NaN then JNull else JNum n)"
| "clean (JStr s) = JStr s"
| "clean (JArr xs) = JArr (clean_elems xs)"
| "clean (JObj kvs) = JObj (clean_members kvs)"
| "clean_elems [] = []"
| "clean_elems (x # xs) = clean x # clean_elems xs"
| "clean_members [] = []"
| "clean_members ((k, v) # kvs) =
     (if v = JUndefined then clean_members kvs else (k, clean v) # clean_members kvs)"

text \<open>
  A JSON value: a well-formed value without \<open>undefined\<close> and without \<open>NaN\<close>, as
  \<open>response.json()\<close> produces them.
\<close>

fun is_json :: "jsval \<Rightarrow> bool"
and are_json :: "jsval list \<Rightarrow> bool"
and members_json :: "(string \<times> jsval) list \<Rightarrow> bool" where
  "is_json JUndefined = False"
| "is_json JNull = True"
| "is_json (JBool b) = True"
| "is_json (JNum n) = num_ok n"
| "is_json (JStr s) = True"
| "is_json (JArr xs) = are_json xs"
| "is_json (JObj kvs) = (distinct (map fst kvs) \<and> members_json kvs)"
| "are_json [] = True"
| "are_json (x # xs) = (is_json x \<and> are_json xs)"
| "members_json [] = True"
| "members_json ((k, v) # kvs) = (is_json v \<and> members_json kvs)"

definition ws_only :: "string \<Rightarrow> bool" where
  "ws_only w = list_all is_ws w"

text \<open>The characters a serialized value can start with.\<close>

definition val_start :: "char \<Rightarrow> bool" where
  "val_start c = (is_digit c \<or> c \<in> set (''ntf[{-'' @ [CHR 0x22]))"

text \<open>The properties of an object that \<open>JSON.stringify\<close> writes.\<close>

definition defined_members :: "(string \<times> jsval) list \<Rightarrow> (string \<times> jsval) list" where
  "defined_members kvs = filter (\<lambda>(k, v). v \<noteq> JUndefined) kvs"


section \<open>Shapes of number text\<close>

text \<open>What may follow a run of digits, and what may follow a whole number.\<close>

definition not_digit_next :: "string \<Rightarrow> bool" where
  "not_digit_next r = (r = [] \<or> \<not> is_digit (hd r))"

definition num_end :: "string \<Rightarrow> bool" where
  "num_end r = (r = [] \<or> (\<not> is_digit (hd r) \<and> hd r \<noteq> CHR ''.'' \<and> hd r \<noteq> CHR ''e'' \<and> hd r \<noteq> CHR ''E''))"

text \<open>The fraction and exponent parts of a number, as text and as value.\<close>

definition frac_part :: "string \<Rightarrow> string" where
  "frac_part fp = (if fp = [] then [] else CHR ''.'' # fp)"

definition exp_part :: "bool \<Rightarrow> string \<Rightarrow> string" where
  "exp_part eneg ed = (if ed = [] then [] else CHR ''e'' # (if eneg then ''-'' else ''+'') @ ed)"

definition exp_value :: "bool \<Rightarrow> string \<Rightarrow> int" where
  "exp_value eneg ed = (if ed = [] then 0 else (if eneg then - 1 else 1) * int (digits_val ed))"


section \<open>Sample inputs\<close>

definition demo_credentials :: TenantCredentials where
  "demo_credentials = \<lparr>connectToken = Some ''tok'', connectHost = Some ''http://op.test/''\<rparr>"

text \<open>A network that answers every request with the given status and body.\<close>

definition demo_network :: "nat \<Rightarrow> string \<Rightarrow> network" where
  "demo_network st txt rq = Inr \<lparr>status = st, response_header = (\<lambda>h. None), response_text = txt\<rparr>"

text \<open>A POST to /mcp that carries a host header and no token header.\<close>

definition demo_request :: worker_request where
  "demo_request =
     \<lparr>pathname = ''/mcp'', req_method = ''POST'',
      headers_get = (\<lambda>h. if h = ''X-1Password-Connect-Host'' then Some ''http://op.test'' else None)\<rparr>"

text \<open>An item that carries a vault of its own, a patch, and a list of vaults.\<close>

definition demo_item :: "(string \<times> jsval) list" where
  "demo_item = [(''title'', JStr ''Test''), (''vault'', JObj [(''id'', JStr ''other'')])]"

definition demo_operations :: "jsval list" where
  "demo_operations =
     [JObj [(''op'', JStr ''replace''), (''path'', JStr ''/title''), (''value'', JStr ''New'')]]"

definition demo_payload :: jsval where
  "demo_payload =
     JArr [JObj [(''id'', JStr ''v1''), (''name'', JStr ''Personal''),
                 (''items'', JNum (Dec 3 0)), (''shared'', JBool False),
                 (''description'', JNull)]]"


section \<open>Printing and parsing decimal digits\<close>

lemma lt_10_cases:
  "d < 10 \<Longrightarrow> d = 0 \<or> d = 1 \<or> d = 2 \<or> d = 3 \<or> d = 4 \<or> d = 5 \<or> d = 6 \<or> d = 7 \<or> d = 8 \<or> d = (9::nat)"
  by arith

lemma digit_char_props:
  assumes "d < 10"
  shows "is_digit (digit_char d)" and "digit_val (digit_char d) = d"
    and "digit_char d = CHR ''0'' \<longleftrightarrow> d = 0"
  using lt_10_cases[OF assms]
  by (auto simp: digit_char_def is_digit_def digit_val_def)

lemma is_digit_not_special:
  "is_digit c \<Longrightarrow> c \<noteq> CHR ''-'' \<and> c \<noteq> CHR ''+'' \<and> c \<noteq> CHR ''.'' \<and> c \<noteq> CHR ''e'' \<and> c \<noteq> CHR ''E''
     \<and> c \<noteq> CHR 0x22 \<and> c \<noteq> CHR ''['' \<and> c \<noteq> CHR ''{'' \<and> c \<noteq> CHR ''t'' \<and> c \<noteq> CHR ''f'' \<and> c \<noteq> CHR ''n''
     \<and> c \<noteq> CHR '' '' \<and> c \<noteq> CHR 0x09 \<and> c \<noteq> CHR 0x0A \<and> c \<noteq> CHR 0x0D"
  by (auto simp: is_digit_def)

lemma show_nat_digits: "\<forall>c \<in> set (show_nat n). is_digit c"
proof (induction n rule: show_nat.induct)
  case (1 n)
  show ?case
  proof (cases "n < 10")
    case True
    then show ?thesis by (simp add: show_nat.simps[of n] digit_char_props)
  next
    case False
    with 1 show ?thesis
      by (simp add: show_nat.simps[of n] digit_char_props)
  qed
qed

lemma show_nat_nonempty: "show_nat n \<noteq> []"
  by (simp add: show_nat.simps[of n])

lemma digits_val_snoc: "digits_val (zs @ [y]) = 10 * digits_val zs + digit_val y"
  by (simp add: digits_val_def)

lemma digits_val_append:
  "digits_val (xs @ ys) = digits_val xs * 10 ^ length ys + digits_val ys"
proof (induction ys rule: rev_induct)
  case Nil
  then show ?case by (simp add: digits_val_def)
next
  case (snoc y ys)
  have "digits_val (xs @ ys @ [y]) = 10 * digits_val (xs @ ys) + digit_val y"
    using digits_val_snoc[of "xs @ ys" y] by simp
  also have "\<dots> = 10 * (digits_val xs * 10 ^ length ys + digits_val ys) + digit_val y"
    by (simp add: snoc.IH)
  also have "\<dots> = digits_val xs * 10 ^ length (ys @ [y]) + digits_val (ys @ [y])"
    by (simp add: digits_val_snoc algebra_simps)
  finally show ?case .
qed

lemma digits_val_single: "digits_val [c] = digit_val c"
  by (simp add: digits_val_def)

lemma digits_val_show_nat: "digits_val (show_nat n) = n"
proof (induction n rule: show_nat.induct)
  case (1 n)
  show ?case
  proof (cases "n < 10")
    case True
    then show ?thesis by (simp add: show_nat.simps[of n] digits_val_single digit_char_props)
  next
    case False
    with 1 show ?thesis
      by (simp add: show_nat.simps[of n] digits_val_append digits_val_single digit_char_props)
  qed
qed

lemma hd_show_nat: "0 < n \<Longrightarrow> hd (show_nat n) \<noteq> CHR ''0''"
proof (induction n rule: show_nat.induct)
  case (1 n)
  show ?case
  proof (cases "n < 10")
    case True
    with 1(2) show ?thesis by (simp add: show_nat.simps[of n] digit_char_props)
  next
    case False
    then have "0 < n div 10" by simp
    with 1(1) False have "hd (show_nat (n div 10)) \<noteq> CHR ''0''" by simp
    with False show ?thesis
      by (simp add: show_nat.simps[of n] show_nat_nonempty)
  qed
qed

lemma last_show_nat: "last (show_nat n) = digit_char (n mod 10)"
  by (simp add: show_nat.simps[of n])

lemma digits_val_zeros: "digits_val (replicate j (CHR ''0'')) = 0"
proof (induction j)
  case 0
  then show ?case by (simp add: digits_val_def)
next
  case (Suc j)
  have "replicate (Suc j) (CHR ''0'') = replicate j (CHR ''0'') @ [CHR ''0'']"
    by (simp add: replicate_append_same)
  then show ?case
    using Suc digits_val_snoc[of "replicate j (CHR ''0'')" "CHR ''0''"]
    by (simp add: digit_val_def)
qed

text \<open>A run of digits, followed by something that is not a digit, is read back whole.\<close>

lemma span_digits:
  assumes "\<forall>c \<in> set ds. is_digit c" and "not_digit_next r"
  shows "takeWhile is_digit (ds @ r) = ds" and "dropWhile is_digit (ds @ r) = r"
proof -
  have t: "takeWhile is_digit r = []" and d: "dropWhile is_digit r = r"
    using assms(2) by (cases r; simp add: not_digit_next_def)+
  show "takeWhile is_digit (ds @ r) = ds"
    using assms(1) by (simp add: t)
  show "dropWhile is_digit (ds @ r) = r"
    using assms(1) by (simp add: d)
qed


lemma num_end_not_digit: "num_end r \<Longrightarrow> not_digit_next r"
  by (auto simp: num_end_def not_digit_next_def)

lemma not_digit_next_Cons: "\<not> is_digit c \<Longrightarrow> not_digit_next (c # r)"
  by (simp add: not_digit_next_def)

section \<open>Reading back a printed number\<close>

lemma parse_exp_part:
  assumes "\<forall>c \<in> set ed. is_digit c" and "num_end r"
  shows "parse_exp (exp_part eneg ed @ r) = Some (exp_value eneg ed, r)"
proof (cases "ed = []")
  case True
  then show ?thesis
    using assms(2) by (cases r) (auto simp: parse_exp_def exp_part_def exp_value_def num_end_def)
next
  case False
  have sp: "takeWhile is_digit (ed @ r) = ed" "dropWhile is_digit (ed @ r) = r"
    using span_digits[OF assms(1) num_end_not_digit[OF assms(2)]] by simp_all
  show ?thesis
    using False sp by (simp add: parse_exp_def exp_part_def exp_value_def Let_def)
qed

lemma not_digit_next_exp_part:
  "num_end r \<Longrightarrow> not_digit_next (exp_part eneg ed @ r)"
  by (auto simp: exp_part_def not_digit_next_def num_end_def is_digit_def)

lemma parse_frac_part:
  assumes "\<forall>c \<in> set fp. is_digit c" and "num_end r"
  shows "parse_frac (frac_part fp @ exp_part eneg ed @ r) = Some (fp, exp_part eneg ed @ r)"
proof (cases "fp = []")
  case True
  have "exp_part eneg ed @ r = [] \<or> hd (exp_part eneg ed @ r) \<noteq> CHR ''.''"
    using assms(2) by (auto simp: exp_part_def num_end_def)
  then show ?thesis
    using True by (cases "exp_part eneg ed @ r") (auto simp: parse_frac_def frac_part_def)
next
  case False
  have sp: "takeWhile is_digit (fp @ exp_part eneg ed @ r) = fp"
           "dropWhile is_digit (fp @ exp_part eneg ed @ r) = exp_part eneg ed @ r"
    using span_digits[OF assms(1) not_digit_next_exp_part[OF assms(2)]] by simp_all
  show ?thesis
    using False sp by (simp add: parse_frac_def frac_part_def)
qed

lemma not_digit_next_frac_part:
  "num_end r \<Longrightarrow> not_digit_next (frac_part fp @ exp_part eneg ed @ r)"
  using not_digit_next_exp_part[of r eneg ed]
  by (auto simp: frac_part_def not_digit_next_def is_digit_def)

lemma parse_number_shape:
  assumes ip: "ip \<noteq> []" "\<forall>c \<in> set ip. is_digit c" "hd ip = CHR ''0'' \<longrightarrow> ip = ''0''"
    and fp: "\<forall>c \<in> set fp. is_digit c"
    and ed: "\<forall>c \<in> set ed. is_digit c"
    and r: "num_end r"
  shows "parse_number ((if neg then ''-'' else []) @ ip @ frac_part fp @ exp_part eneg ed @ r)
           = Some (make_num neg ip fp (exp_value eneg ed), r)"
proof -
  let ?X = "frac_part fp @ exp_part eneg ed @ r"
  let ?s = "(if neg then ''-'' else []) @ ip @ ?X"
  obtain c ip' where ipc: "ip = c # ip'" using ip(1) by (cases ip) auto
  have dc: "is_digit c" using ip(2) ipc by simp
  have ip'd: "\<forall>c \<in> set ip'. is_digit c" using ip(2) ipc by simp
  have negs: "(?s \<noteq> [] \<and> hd ?s = CHR ''-'') = neg"
    using dc ipc is_digit_not_special[OF dc] by auto
  have s1: "(if neg then tl ?s else ?s) = c # ip' @ ?X"
    using ipc by simp
  have sp: "takeWhile is_digit (ip' @ ?X) = ip'" "dropWhile is_digit (ip' @ ?X) = ?X"
    using span_digits[OF ip'd not_digit_next_frac_part[OF r]] by simp_all
  have zero: "c = CHR ''0'' \<Longrightarrow> ip' = []" using ip(3) ipc by simp
  have ipart: "(if c = CHR ''0'' then [c] else c # takeWhile is_digit (ip' @ ?X)) = ip"
    using zero sp ipc by auto
  have rest: "(if c = CHR ''0'' then ip' @ ?X else dropWhile is_digit (ip' @ ?X)) = ?X"
    using zero sp by auto
  show ?thesis
    unfolding parse_number_def Let_def negs s1
    using dc ipart rest parse_frac_part[OF fp r, of eneg ed] parse_exp_part[OF ed r, of eneg]
    by simp
qed


lemma takeWhile_zeros: "takeWhile (\<lambda>c. c = CHR ''0'') xs = replicate (length (takeWhile (\<lambda>c. c = CHR ''0'') xs)) (CHR ''0'')"
  by (induction xs) auto

lemma strip_zeros_decomp:
  "ds = strip_zeros ds @ replicate (length ds - length (strip_zeros ds)) (CHR ''0'')"
proof -
  let ?P = "\<lambda>c. c = CHR ''0''"
  have "rev ds = takeWhile ?P (rev ds) @ dropWhile ?P (rev ds)" by simp
  then have "ds = rev (dropWhile ?P (rev ds)) @ rev (takeWhile ?P (rev ds))"
    by (metis rev_append rev_rev_ident)
  moreover have "rev (takeWhile ?P (rev ds)) = replicate (length (takeWhile ?P (rev ds))) (CHR ''0'')"
    using takeWhile_zeros[of "rev ds"] by (metis rev_replicate)
  moreover have "length (takeWhile ?P (rev ds)) = length ds - length (strip_zeros ds)"
  proof -
    have "length (takeWhile ?P (rev ds)) + length (dropWhile ?P (rev ds)) = length ds"
      by (metis length_append length_rev takeWhile_dropWhile_id)
    then show ?thesis by (simp add: strip_zeros_def)
  qed
  ultimately show ?thesis by (simp add: strip_zeros_def)
qed

lemma strip_zeros_hd:
  assumes "ds \<noteq> []" "hd ds \<noteq> CHR ''0''"
  shows "strip_zeros ds \<noteq> []" and "hd (strip_zeros ds) = hd ds"
proof -
  let ?j = "length ds - length (strip_zeros ds)"
  have d: "ds = strip_zeros ds @ replicate ?j (CHR ''0'')" by (rule strip_zeros_decomp)
  show ne: "strip_zeros ds \<noteq> []"
  proof
    assume e: "strip_zeros ds = []"
    with d have "ds = replicate ?j (CHR ''0'')" by simp
    with assms show False by (cases ?j) auto
  qed
  from d ne show "hd (strip_zeros ds) = hd ds" by (metis hd_append2)
qed

lemma strip_zeros_set: "set (strip_zeros ds) \<subseteq> set ds"
  by (auto simp: strip_zeros_def dest: set_dropWhileD)

lemma strip_zeros_length: "length (strip_zeros ds) \<le> length ds"
  by (simp add: strip_zeros_def length_dropWhile_le[of _ "rev ds", simplified])

lemma norm_dec_ok: "m mod 10 \<noteq> 0 \<Longrightarrow> norm_dec m d = Dec m d"
  by (cases d) simp_all

lemma exp_form_shape:
  assumes "s \<noteq> []"
  shows "exp_form s n = [hd s] @ frac_part (tl s) @ exp_part (n - 1 < 0) (show_nat (nat (abs (n - 1))))"
  by (simp add: exp_form_def frac_part_def exp_part_def show_nat_nonempty)

lemma exp_value_show_nat: "exp_value (n < 0) (show_nat (nat (abs n))) = n"
  by (simp add: exp_value_def show_nat_nonempty digits_val_show_nat)

lemma signed_mod_10:
  "M mod 10 \<noteq> (0::nat) \<Longrightarrow> ((if neg then - 1 else 1) * int M) mod 10 \<noteq> 0"
proof -
  assume a: "M mod 10 \<noteq> 0"
  then have "\<not> 10 dvd int M" by presburger
  then have "\<not> 10 dvd ((if neg then - 1 else 1) * int M)" by (cases neg) simp_all
  then show ?thesis by presburger
qed

lemma shape_use:
  assumes "txt = ip @ frac_part fp @ exp_part eneg ed" "ip \<noteq> []" "\<forall>c \<in> set ip. is_digit c"
    "hd ip = CHR ''0'' \<longrightarrow> ip = ''0''" "\<forall>c \<in> set fp. is_digit c" "\<forall>c \<in> set ed. is_digit c"
    "num_end r" "make_num neg ip fp (exp_value eneg ed) = v"
  shows "parse_number ((if neg then ''-'' else []) @ txt @ r) = Some (v, r)"
  using parse_number_shape[OF assms(2,3,4,5,6,7), of neg eneg] assms(1,8) by simp

lemma show_nat_hd_digit: "is_digit (hd (show_nat M))"
  using show_nat_digits[of M] show_nat_nonempty[of M] by (cases "show_nat M") auto

lemma show_nat_tl_digits: "\<forall>c \<in> set (tl (show_nat M)). is_digit c"
  using show_nat_digits[of M] show_nat_nonempty[of M] by (cases "show_nat M") auto

lemma show_pos_int_short:
  assumes M: "0 < M" and K: "length (show_nat M) \<le> 21" and r: "num_end r"
  shows "parse_number ((if neg then ''-'' else []) @ show_pos M 0 @ r)
           = Some (Dec ((if neg then - 1 else 1) * int M) 0, r)"
proof (rule shape_use[where ip = "show_nat M" and fp = "[]" and ed = "[]" and eneg = False])
  show "show_pos M 0 = show_nat M @ frac_part [] @ exp_part False []"
    using K by (simp add: show_pos_def Let_def frac_part_def exp_part_def)
  show "make_num neg (show_nat M) [] (exp_value False []) = Dec ((if neg then - 1 else 1) * int M) 0"
    by (simp add: make_num_def exp_value_def digits_val_show_nat)
  show "hd (show_nat M) = CHR ''0'' \<longrightarrow> show_nat M = ''0''"
    using hd_show_nat[OF M] by simp
qed (simp_all add: show_nat_nonempty show_nat_digits r)

lemma show_pos_int_long:
  assumes M: "0 < M" and K: "\<not> length (show_nat M) \<le> 21" and r: "num_end r"
  shows "parse_number ((if neg then ''-'' else []) @ show_pos M 0 @ r)
           = Some (Dec ((if neg then - 1 else 1) * int M) 0, r)"
proof -
  let ?ds = "show_nat M"
  let ?K = "length ?ds"
  let ?sg = "(if neg then - 1 else 1) :: int"
  let ?s = "strip_zeros ?ds"
  let ?j = "?K - length ?s"
  have ne: "?ds \<noteq> []" by (rule show_nat_nonempty)
  have hd0: "hd ?ds \<noteq> CHR ''0''" using hd_show_nat[OF M] .
  have sne: "?s \<noteq> []" and shd: "hd ?s = hd ?ds" using strip_zeros_hd[OF ne hd0] by simp_all
  have sdig: "\<forall>c \<in> set ?s. is_digit c" using show_nat_digits[of M] strip_zeros_set[of ?ds] by auto
  have dec: "?ds = ?s @ replicate ?j (CHR ''0'')" by (rule strip_zeros_decomp)
  have sval: "digits_val ?s * 10 ^ ?j = M"
  proof -
    have "digits_val ?ds = digits_val ?s * 10 ^ ?j + digits_val (replicate ?j (CHR ''0''))"
      using digits_val_append[of ?s "replicate ?j (CHR ''0'')"] dec by simp
    then show ?thesis by (simp add: digits_val_zeros digits_val_show_nat)
  qed
  have sle: "length ?s \<le> ?K" by (rule strip_zeros_length)
  obtain k where k: "length ?s = Suc k" using sne by (cases "length ?s") auto
  have lt: "length (tl ?s) = k" using k by simp
  have le: "int (length (tl ?s)) \<le> int ?K - 1" using sle k lt by linarith
  have ex: "nat (int ?K - 1 - int (length (tl ?s))) = ?j" using sle k lt by linarith
  have hts: "[hd ?s] @ tl ?s = ?s" using sne by simp
  have mk0: "make_num neg [hd ?s] (tl ?s) (int ?K - 1) = Dec (?sg * int (digits_val ([hd ?s] @ tl ?s)) * 10 ^ ?j) 0"
    using le ex unfolding make_num_def Let_def by (simp only: if_True)
  have mk: "make_num neg [hd ?s] (tl ?s) (int ?K - 1) = Dec (?sg * int M) 0"
  proof -
    have "?sg * int (digits_val ?s) * 10 ^ ?j = ?sg * int (digits_val ?s * 10 ^ ?j)" by simp
    then show ?thesis using mk0 sval unfolding hts by simp
  qed
  show ?thesis
  proof (rule shape_use[where ip = "[hd ?s]" and fp = "tl ?s" and eneg = "int ?K - 1 < 0"
          and ed = "show_nat (nat (abs (int ?K - 1)))"])
    show "show_pos M 0 = [hd ?s] @ frac_part (tl ?s) @ exp_part (int ?K - 1 < 0) (show_nat (nat (abs (int ?K - 1))))"
      by (simp only: show_pos_def Let_def K if_True if_False exp_form_shape[OF sne] refl)
    show "make_num neg [hd ?s] (tl ?s) (exp_value (int ?K - 1 < 0) (show_nat (nat (abs (int ?K - 1)))))
            = Dec ((if neg then - 1 else 1) * int M) 0"
      using mk by (simp only: exp_value_show_nat)
    show "\<forall>c \<in> set [hd ?s]. is_digit c" using shd show_nat_hd_digit[of M] by simp
    show "\<forall>c \<in> set (tl ?s). is_digit c" using sdig sne by (cases ?s) auto
    show "hd [hd ?s] = CHR ''0'' \<longrightarrow> [hd ?s] = ''0''" using shd hd0 by simp
  qed (simp_all add: show_nat_digits r)
qed

lemma show_pos_frac_point:
  assumes M: "0 < M" and dpos: "d \<noteq> 0" and m10: "M mod 10 \<noteq> 0"
    and n: "0 < int (length (show_nat M)) - int d \<and> int (length (show_nat M)) - int d \<le> 21"
    and r: "num_end r"
  shows "parse_number ((if neg then ''-'' else []) @ show_pos M d @ r)
           = Some (Dec ((if neg then - 1 else 1) * int M) d, r)"
proof -
  let ?ds = "show_nat M"
  let ?K = "length ?ds"
  let ?sg = "(if neg then - 1 else 1) :: int"
  let ?n = "int ?K - int d"
  let ?ip = "take (nat ?n) ?ds" and ?fp = "drop (nat ?n) ?ds"
  have ne: "?ds \<noteq> []" by (rule show_nat_nonempty)
  have nd: "norm_dec (?sg * int M) d = Dec (?sg * int M) d"
    by (rule norm_dec_ok[OF signed_mod_10[OF m10]])
  have nlt: "nat ?n < ?K" using dpos n by linarith
  have npos: "0 < nat ?n" using n by linarith
  have fne: "?fp \<noteq> []" using nlt by simp
  have lf: "int (length ?fp) = int d" using nlt n by simp
  show ?thesis
  proof (rule shape_use[where ip = ?ip and fp = ?fp and eneg = False and ed = "[]"])
    show "show_pos M d = ?ip @ frac_part ?fp @ exp_part False []"
    proof -
      have "show_pos M d = ?ip @ ''.'' @ ?fp"
        by (simp only: show_pos_def Let_def dpos n if_True if_False simp_thms)
      then show ?thesis using fne by (simp add: frac_part_def exp_part_def)
    qed
    show "make_num neg ?ip ?fp (exp_value False []) = Dec (?sg * int M) d"
      using dpos lf nd by (simp add: make_num_def Let_def exp_value_def digits_val_show_nat del: length_drop)
    show "?ip \<noteq> []" using npos ne by simp
    show "\<forall>c \<in> set ?ip. is_digit c" using show_nat_digits[of M] by (auto dest: in_set_takeD)
    show "\<forall>c \<in> set ?fp. is_digit c" using show_nat_digits[of M] by (auto dest: in_set_dropD)
    show "hd ?ip = CHR ''0'' \<longrightarrow> ?ip = ''0''"
      using hd_show_nat[OF M] npos by (simp add: hd_take)
  qed (simp_all add: r)
qed

lemma show_pos_frac_small:
  assumes M: "0 < M" and dpos: "d \<noteq> 0" and m10: "M mod 10 \<noteq> 0"
    and n: "- 6 < int (length (show_nat M)) - int d \<and> int (length (show_nat M)) - int d \<le> 0"
    and r: "num_end r"
  shows "parse_number ((if neg then ''-'' else []) @ show_pos M d @ r)
           = Some (Dec ((if neg then - 1 else 1) * int M) d, r)"
proof -
  let ?ds = "show_nat M"
  let ?K = "length ?ds"
  let ?sg = "(if neg then - 1 else 1) :: int"
  let ?n = "int ?K - int d"
  let ?z = "replicate (nat (- ?n)) (CHR ''0'')"
  let ?fp = "?z @ ?ds"
  have ne: "?ds \<noteq> []" by (rule show_nat_nonempty)
  have nd: "norm_dec (?sg * int M) d = Dec (?sg * int M) d"
    by (rule norm_dec_ok[OF signed_mod_10[OF m10]])
  have lz: "length ?z = nat (- ?n)" by (rule length_replicate)
  have lf: "length ?fp = d" unfolding length_append lz using n by linarith
  have v1: "digits_val ?fp = M"
    unfolding digits_val_append[of ?z ?ds] digits_val_zeros digits_val_show_nat by simp
  have z0: "digits_val ''0'' = 0" by (simp add: digits_val_def digit_val_def)
  have v: "digits_val (''0'' @ ?fp) = M"
    unfolding digits_val_append[of "''0''" ?fp] z0 v1 by simp
  have nle: "\<not> int (length ?fp) \<le> 0" unfolding lf using dpos by simp
  have ex: "nat (int (length ?fp) - 0) = d" unfolding lf by simp
  have mk: "make_num neg ''0'' ?fp 0 = Dec (?sg * int M) d"
    unfolding make_num_def Let_def v using nle
    by (simp only: if_False ex nd)
  have zdig: "\<forall>c \<in> set ?z. is_digit c" by (simp add: is_digit_def)
  have ev: "exp_value False [] = 0" by (simp add: exp_value_def)
  show ?thesis
  proof (rule shape_use[where ip = "''0''" and fp = ?fp and eneg = False and ed = "[]"])
    show "show_pos M d = ''0'' @ frac_part ?fp @ exp_part False []"
    proof -
      have n1: "\<not> (0 < ?n \<and> ?n \<le> 21)" using n by linarith
      have "show_pos M d = ''0.'' @ ?z @ ?ds"
        by (simp only: show_pos_def Let_def dpos n n1 if_True if_False simp_thms)
      then show ?thesis using ne by (simp add: frac_part_def exp_part_def)
    qed
    show "make_num neg ''0'' ?fp (exp_value False []) = Dec (?sg * int M) d"
      unfolding ev by (rule mk)
    show "\<forall>c \<in> set ?fp. is_digit c" using zdig show_nat_digits[of M] unfolding set_append by blast
    show "\<forall>c \<in> set ''0''. is_digit c" by (simp add: is_digit_def)
    show "\<forall>c \<in> set []. is_digit c" by simp
    show "''0'' \<noteq> []" by simp
    show "hd ''0'' = CHR ''0'' \<longrightarrow> ''0'' = ''0''" by simp
    show "num_end r" by (rule r)
  qed
qed

lemma show_pos_frac_exp:
  assumes M: "0 < M" and dpos: "d \<noteq> 0" and m10: "M mod 10 \<noteq> 0"
    and n1: "\<not> (0 < int (length (show_nat M)) - int d \<and> int (length (show_nat M)) - int d \<le> 21)"
    and n2: "\<not> (- 6 < int (length (show_nat M)) - int d \<and> int (length (show_nat M)) - int d \<le> 0)"
    and r: "num_end r"
  shows "parse_number ((if neg then ''-'' else []) @ show_pos M d @ r)
           = Some (Dec ((if neg then - 1 else 1) * int M) d, r)"
proof -
  let ?ds = "show_nat M"
  let ?K = "length ?ds"
  let ?sg = "(if neg then - 1 else 1) :: int"
  let ?n = "int ?K - int d"
  have ne: "?ds \<noteq> []" by (rule show_nat_nonempty)
  obtain k where k: "?K = Suc k" using ne by (cases ?K) auto
  have nd: "norm_dec (?sg * int M) d = Dec (?sg * int M) d"
    by (rule norm_dec_ok[OF signed_mod_10[OF m10]])
  have hts: "[hd ?ds] @ tl ?ds = ?ds" using ne by simp
  have lt: "length (tl ?ds) = k" using k by simp
  have nle: "\<not> int (length (tl ?ds)) \<le> ?n - 1" using dpos k lt by linarith
  have ex: "nat (int (length (tl ?ds)) - (?n - 1)) = d" using k lt by linarith
  have mk: "make_num neg [hd ?ds] (tl ?ds) (?n - 1) = Dec (?sg * int M) d"
    unfolding make_num_def Let_def hts digits_val_show_nat using nle ex nd
    by (simp only: if_False)
  show ?thesis
  proof (rule shape_use[where ip = "[hd ?ds]" and fp = "tl ?ds" and eneg = "?n - 1 < 0"
          and ed = "show_nat (nat (abs (?n - 1)))"])
    show "show_pos M d = [hd ?ds] @ frac_part (tl ?ds) @ exp_part (?n - 1 < 0) (show_nat (nat (abs (?n - 1))))"
      by (simp only: show_pos_def Let_def dpos n1 n2 if_False exp_form_shape[OF ne])
    show "make_num neg [hd ?ds] (tl ?ds) (exp_value (?n - 1 < 0) (show_nat (nat (abs (?n - 1)))))
            = Dec (?sg * int M) d"
      using mk by (simp only: exp_value_show_nat)
    show "\<forall>c \<in> set [hd ?ds]. is_digit c" using show_nat_hd_digit[of M] by simp
    show "hd [hd ?ds] = CHR ''0'' \<longrightarrow> [hd ?ds] = ''0''" using hd_show_nat[OF M] by simp
  qed (simp_all add: show_nat_digits show_nat_tl_digits r)
qed

lemma show_pos_roundtrip:
  assumes M: "0 < M" and ok: "d = 0 \<or> M mod 10 \<noteq> 0" and r: "num_end r"
  shows "parse_number ((if neg then ''-'' else []) @ show_pos M d @ r)
           = Some (Dec ((if neg then - 1 else 1) * int M) d, r)"
proof (cases "d = 0")
  case True
  then show ?thesis
    using show_pos_int_short[OF M _ r, of neg] show_pos_int_long[OF M _ r, of neg]
    by (cases "length (show_nat M) \<le> 21") simp_all
next
  case False
  with ok have m10: "M mod 10 \<noteq> 0" by simp
  show ?thesis
    using show_pos_frac_point[OF M False m10 _ r, of neg]
          show_pos_frac_small[OF M False m10 _ r, of neg]
          show_pos_frac_exp[OF M False m10 _ _ r, of neg]
    by blast
qed

lemma number_roundtrip:
  assumes "num_ok n" and "num_end r"
  shows "parse_number (Number_toString n @ r) = Some (n, r)"
proof (cases n)
  case NaN
  with assms show ?thesis by simp
next
  case (Dec m d)
  show ?thesis
  proof (cases "m = 0")
    case True
    with assms(1) Dec have d0: "d = 0" by simp
    have "parse_number ((if False then ''-'' else []) @ ''0'' @ frac_part [] @ exp_part False [] @ r)
            = Some (make_num False ''0'' [] (exp_value False []), r)"
      by (rule parse_number_shape[OF _ _ _ _ _ assms(2)]) (simp_all add: is_digit_def)
    then show ?thesis
      using Dec True d0
      by (simp add: frac_part_def exp_part_def exp_value_def make_num_def digits_val_def digit_val_def)
  next
    case False
    let ?M = "nat (abs m)"
    have M: "0 < ?M" using False by simp
    have ok: "d = 0 \<or> ?M mod 10 \<noteq> 0"
    proof (cases "d = 0")
      case True then show ?thesis by simp
    next
      case dn: False
      with assms(1) Dec have "m mod 10 \<noteq> 0" by simp
      then have "\<not> 10 dvd m" by presburger
      then have "\<not> 10 dvd abs m" by simp
      then have "\<not> 10 dvd int ?M" by simp
      then have "?M mod 10 \<noteq> 0" by presburger
      then show ?thesis by simp
    qed
    have sgn: "(if m < 0 then - 1 else 1) * int ?M = m" by simp
    have "Number_toString n = (if m < 0 then ''-'' else []) @ show_pos ?M d"
      using Dec False by (auto simp: nat_abs_int_diff abs_if)
    then show ?thesis
      using show_pos_roundtrip[OF M ok assms(2), of "m < 0"] Dec sgn by simp
  qed
qed

section \<open>Reading back a quoted string\<close>

text \<open>The sixteen values of a hexadecimal digit.\<close>

lemma lt_16_cases:
  "n < 16 \<Longrightarrow> n \<in> {0, 1, 2, 3, 4, 5, 6, 7, 8, 9, 10, 11, 12, 13, 14, 15::nat}"
  by simp arith

lemma hex_val_hex_digit: "n < 16 \<Longrightarrow> hex_val (hex_digit n) = Some n"
  using lt_16_cases[of n]
  by (auto simp: hex_val_def hex_digit_def is_digit_def digit_val_def)

lemma take_unicode_control:
  assumes "(of_char c :: nat) < 32"
  shows "take_unicode (CHR ''0'' # CHR ''0'' # hex_digit (of_char c div 16) # hex_digit (of_char c mod 16) # r)
           = Some ([c], r)"
proof -
  let ?n = "of_char c :: nat"
  have h0: "hex_val (CHR ''0'') = Some 0" by (simp add: hex_val_def is_digit_def digit_val_def)
  have h1: "hex_val (hex_digit (?n div 16)) = Some (?n div 16)"
    using assms by (intro hex_val_hex_digit) simp
  have h2: "hex_val (hex_digit (?n mod 16)) = Some (?n mod 16)"
    by (intro hex_val_hex_digit) simp
  have h4: "hex4 (CHR ''0'') (CHR ''0'') (hex_digit (?n div 16)) (hex_digit (?n mod 16)) = Some ?n"
    by (simp add: hex4_def h0 h1 h2)
  have enc: "utf8_encode ?n = [c]" using assms by (simp add: utf8_encode_def)
  show ?thesis
    using assms by (simp add: take_unicode_def h4 enc)
qed

lemma parse_chars_escape:
  assumes "parse_chars r = Some (s, rest)"
  shows "parse_chars (escape_char c @ r) = Some (c # s, rest)"
proof -
  consider (b) "c = CHR 0x08" | (t) "c = CHR 0x09" | (n) "c = CHR 0x0A" | (f) "c = CHR 0x0C"
    | (r) "c = CHR 0x0D" | (q) "c = CHR 0x22" | (bs) "c = CHR 0x5C"
    | (ctl) "c \<noteq> CHR 0x08" "c \<noteq> CHR 0x09" "c \<noteq> CHR 0x0A" "c \<noteq> CHR 0x0C" "c \<noteq> CHR 0x0D"
            "c \<noteq> CHR 0x22" "c \<noteq> CHR 0x5C" "(of_char c :: nat) < 32"
    | (plain) "c \<noteq> CHR 0x08" "c \<noteq> CHR 0x09" "c \<noteq> CHR 0x0A" "c \<noteq> CHR 0x0C" "c \<noteq> CHR 0x0D"
            "c \<noteq> CHR 0x22" "c \<noteq> CHR 0x5C" "\<not> (of_char c :: nat) < 32"
    by blast
  then show ?thesis
  proof cases
    case b
    then show ?thesis using assms by (simp add: escape_char_def parse_chars.simps unescape_def)
  next
    case t
    then show ?thesis using assms by (simp add: escape_char_def parse_chars.simps unescape_def)
  next
    case n
    then show ?thesis using assms by (simp add: escape_char_def parse_chars.simps unescape_def)
  next
    case f
    then show ?thesis using assms by (simp add: escape_char_def parse_chars.simps unescape_def)
  next
    case r
    then show ?thesis using assms by (simp add: escape_char_def parse_chars.simps unescape_def)
  next
    case q
    then show ?thesis using assms by (simp add: escape_char_def parse_chars.simps unescape_def)
  next
    case bs
    then show ?thesis using assms by (simp add: escape_char_def parse_chars.simps unescape_def)
  next
    case ctl
    then have e: "escape_char c = [CHR 0x5C, CHR ''u'', CHR ''0'', CHR ''0'',
         hex_digit (of_char c div 16), hex_digit (of_char c mod 16)]"
      by (simp add: escape_char_def)
    show ?thesis
      unfolding e using assms take_unicode_control[OF ctl(8), of r]
      by (simp add: parse_chars.simps)
  next
    case plain
    then show ?thesis using assms by (simp add: escape_char_def parse_chars.simps)
  qed
qed

lemma parse_chars_roundtrip:
  "parse_chars (concat (map escape_char s) @ CHR 0x22 # rest) = Some (s, rest)"
proof (induction s)
  case Nil
  then show ?case by (simp add: parse_chars.simps)
next
  case (Cons c s)
  show ?case using parse_chars_escape[OF Cons.IH, of c] by simp
qed

lemma quote_roundtrip: "quote s @ rest = CHR 0x22 # concat (map escape_char s) @ CHR 0x22 # rest"
  by (simp add: quote_def)

section \<open>Reading back a serialized value\<close>

lemma skip_ws_append: "ws_only w \<Longrightarrow> skip_ws (w @ s) = skip_ws s"
  by (induction w) (auto simp: ws_only_def skip_ws_def)

lemma skip_ws_start: "\<not> is_ws c \<Longrightarrow> skip_ws (c # s) = c # s"
  by (simp add: skip_ws_def)

lemma skip_ws_ws_start: "ws_only w \<Longrightarrow> \<not> is_ws c \<Longrightarrow> skip_ws (w @ c # s) = c # s"
  by (simp add: skip_ws_append skip_ws_start)

lemma val_start_not:
  "val_start c \<Longrightarrow> \<not> is_ws c \<and> c \<noteq> CHR '']'' \<and> c \<noteq> CHR ''}'' \<and> c \<noteq> CHR '','' \<and> c \<noteq> CHR '':''"
  by (auto simp: val_start_def is_digit_def is_ws_def)

lemma punct_not_ws:
  "\<not> is_ws (CHR '']'')" "\<not> is_ws (CHR ''}'')" "\<not> is_ws (CHR '','')" "\<not> is_ws (CHR '':'')"
  "\<not> is_ws (CHR ''['')" "\<not> is_ws (CHR ''{'')" "\<not> is_ws (CHR 0x22)"
  by (simp_all add: is_ws_def)

lemma num_end_punct:
  "num_end []" "num_end (CHR '','' # s)" "num_end (CHR '']'' # s)" "num_end (CHR ''}'' # s)"
  by (simp_all add: num_end_def is_digit_def)

lemma num_end_ws: "ws_only w \<Longrightarrow> num_end s \<Longrightarrow> num_end (w @ s)"
  by (cases w) (auto simp: ws_only_def num_end_def is_ws_def is_digit_def)

lemma ws_only_simps:
  "ws_only []" "ws_only (c # w) = (is_ws c \<and> ws_only w)" "ws_only (u @ w) = (ws_only u \<and> ws_only w)"
  by (simp_all add: ws_only_def)

lemma is_ws_simps: "is_ws (CHR 0x0A)" "is_ws (CHR '' '')"
  by (simp_all add: is_ws_def)

text \<open>The elements of an array, each followed by a comma or by the closing bracket.\<close>

lemma parse_elems_join:
  assumes "\<And>x w r. x \<in> set xs \<Longrightarrow> ws_only w \<Longrightarrow> num_end r \<Longrightarrow>
                 parse_value (w @ pr x @ r) = Some (cl x, r)"
    and "xs \<noteq> []" and "ws_only w0" and "ws_only w1" and "ws_only w2"
  shows "parse_elems (w0 @ join_with (CHR '','' # w1) (map pr xs) @ w2 @ CHR '']'' # r)
           = Some (map cl xs, r)"
  using assms(1,2,3)
proof (induction xs arbitrary: w0)
  case Nil
  then show ?case by simp
next
  case (Cons x xs)
  show ?case
  proof (cases xs)
    case Nil
    let ?R = "w2 @ CHR '']'' # r"
    have ne: "num_end ?R" by (rule num_end_ws[OF assms(5)]) (rule num_end_punct)
    have pv: "parse_value (w0 @ pr x @ ?R) = Some (cl x, ?R)"
      by (rule Cons.prems(1)[OF _ Cons.prems(3) ne]) simp
    have sk: "skip_ws ?R = CHR '']'' # r"
      by (rule skip_ws_ws_start[OF assms(5)]) (rule punct_not_ws)
    show ?thesis
      unfolding Nil
      by (subst parse_elems.simps) (simp add: pv sk)
  next
    case (Cons y ys)
    let ?T = "join_with (CHR '','' # w1) (map pr xs) @ w2 @ CHR '']'' # r"
    let ?R = "CHR '','' # w1 @ ?T"
    have ne: "num_end ?R" by (rule num_end_punct)
    have pv: "parse_value (w0 @ pr x @ ?R) = Some (cl x, ?R)"
      by (rule Cons.prems(1)[OF _ Cons.prems(3) ne]) simp
    have sk: "skip_ws ?R = ?R"
      by (rule skip_ws_start) (rule punct_not_ws)
    have ih: "parse_elems (w1 @ ?T) = Some (map cl xs, r)"
      by (rule Cons.IH[OF Cons.prems(1) _ assms(4)]) (simp_all add: Cons)
    have jn: "join_with (CHR '','' # w1) (map pr (x # xs)) = pr x @ CHR '','' # w1 @ join_with (CHR '','' # w1) (map pr xs)"
      by (simp add: Cons)
    have eq: "w0 @ join_with (CHR '','' # w1) (map pr (x # xs)) @ w2 @ CHR '']'' # r = w0 @ pr x @ ?R"
      unfolding jn by simp
    show ?thesis
      unfolding eq
      by (subst parse_elems.simps) (simp add: pv sk ih)
  qed
qed

text \<open>The members of an object likewise.\<close>

lemma parse_members_join:
  assumes "\<And>k v w r. (k, v) \<in> set kvs \<Longrightarrow> ws_only w \<Longrightarrow> num_end r \<Longrightarrow>
                 parse_value (w @ pr v @ r) = Some (cl v, r)"
    and "kvs \<noteq> []" and "ws_only w0" and "ws_only w1" and "ws_only w2" and "ws_only w3"
  shows "parse_members
           (w0 @ join_with (CHR '','' # w1) (map (\<lambda>(k, v). quote k @ CHR '':'' # w3 @ pr v) kvs) @
            w2 @ CHR ''}'' # r)
           = Some (map (\<lambda>(k, v). (k, cl v)) kvs, r)"
  using assms(1,2,3)
proof (induction kvs arbitrary: w0)
  case Nil
  then show ?case by simp
next
  case (Cons kv kvs)
  obtain k v where kv: "kv = (k, v)" by (cases kv)
  let ?mem = "\<lambda>(k, v). quote k @ CHR '':'' # w3 @ pr v"
  have key: "parse_members (w0 @ quote k @ CHR '':'' # w3 @ pr v @ R)
               = (case skip_ws R of
                    [] \<Rightarrow> None
                  | c # r' \<Rightarrow>
                      if c = CHR ''}'' then Some ([(k, cl v)], r')
                      else if c = CHR '','' \<and> length r' < length (w0 @ quote k @ CHR '':'' # w3 @ pr v @ R) then
                        (case parse_members r' of
                           None \<Rightarrow> None
                         | Some (kvs, r'') \<Rightarrow> Some ((k, cl v) # kvs, r''))
                      else None)"
    if "num_end R" for R
  proof -
    let ?s = "w0 @ quote k @ CHR '':'' # w3 @ pr v @ R"
    have s1: "skip_ws ?s = CHR 0x22 # concat (map escape_char k) @ CHR 0x22 # CHR '':'' # w3 @ pr v @ R"
      using skip_ws_ws_start[OF Cons.prems(3) punct_not_ws(7)] by (simp add: quote_def)
    have s2: "parse_chars (concat (map escape_char k) @ CHR 0x22 # CHR '':'' # w3 @ pr v @ R)
                = Some (k, CHR '':'' # w3 @ pr v @ R)"
      by (rule parse_chars_roundtrip)
    have s3: "skip_ws (CHR '':'' # w3 @ pr v @ R) = CHR '':'' # w3 @ pr v @ R"
      by (rule skip_ws_start) (rule punct_not_ws)
    have s4: "parse_value (w3 @ pr v @ R) = Some (cl v, R)"
      by (rule Cons.prems(1)[of k v, OF _ assms(6) that]) (simp add: kv)
    show ?thesis
      by (subst parse_members.simps) (simp add: s1 s2 s3 s4 del: append_assoc)
  qed
  show ?case
  proof (cases kvs)
    case Nil
    let ?R = "w2 @ CHR ''}'' # r"
    have ne: "num_end ?R" by (rule num_end_ws[OF assms(5)]) (rule num_end_punct)
    have sk: "skip_ws ?R = CHR ''}'' # r"
      by (rule skip_ws_ws_start[OF assms(5)]) (rule punct_not_ws)
    show ?thesis
      unfolding Nil kv using key[OF ne] by (simp add: sk)
  next
    case (Cons y ys)
    let ?T = "join_with (CHR '','' # w1) (map ?mem kvs) @ w2 @ CHR ''}'' # r"
    let ?R = "CHR '','' # w1 @ ?T"
    have ne: "num_end ?R" by (rule num_end_punct)
    have sk: "skip_ws ?R = ?R"
      by (rule skip_ws_start) (rule punct_not_ws)
    have pr': "\<And>k v w r. (k, v) \<in> set kvs \<Longrightarrow> ws_only w \<Longrightarrow> num_end r \<Longrightarrow>
                 parse_value (w @ pr v @ r) = Some (cl v, r)"
      using Cons.prems(1) by (meson list.set_intros(2))
    have ih: "parse_members (w1 @ ?T) = Some (map (\<lambda>(k, v). (k, cl v)) kvs, r)"
      by (rule Cons.IH[OF pr' _ assms(4)]) (simp_all add: Cons)
    have jn: "join_with (CHR '','' # w1) (map ?mem (kv # kvs))
                = quote k @ CHR '':'' # w3 @ pr v @ CHR '','' # w1 @ join_with (CHR '','' # w1) (map ?mem kvs)"
      by (simp add: Cons kv)
    have eq: "w0 @ join_with (CHR '','' # w1) (map ?mem (kv # kvs)) @ w2 @ CHR ''}'' # r
                = w0 @ quote k @ CHR '':'' # w3 @ pr v @ ?R"
      unfolding jn by simp
    show ?thesis
      unfolding eq using key[OF ne] by (simp add: sk ih kv)
  qed
qed

lemma ser_elems_map: "ser_elems g i xs = map (ser g i) xs"
  by (induction xs) simp_all

lemma clean_elems_map: "clean_elems xs = map clean xs"
  by (induction xs) simp_all

lemma wf_elems_all: "wf_elems xs = list_all wf_val xs"
  by (induction xs) simp_all

lemma ser_members_map:
  "ser_members g i kvs =
     map (\<lambda>(k, v). quote k @ CHR '':'' # (if g = [] then [] else '' '') @ ser g i v)
       (defined_members kvs)"
  by (induction kvs) (auto simp: defined_members_def)

lemma clean_members_map:
  "clean_members kvs = map (\<lambda>(k, v). (k, clean v)) (defined_members kvs)"
  by (induction kvs) (auto simp: defined_members_def)

lemma wf_members_all: "wf_members kvs = list_all (\<lambda>(k, v). wf_val v) kvs"
  by (induction kvs) auto

lemma defined_members_subset: "set (defined_members kvs) \<subseteq> set kvs"
  by (auto simp: defined_members_def)

lemma fst_clean_members: "map fst (clean_members kvs) = map fst (defined_members kvs)"
  by (induction kvs) (auto simp: defined_members_def)

lemma distinct_defined_members: "distinct (map fst kvs) \<Longrightarrow> distinct (map fst (defined_members kvs))"
  unfolding defined_members_def by (rule distinct_map_filter)

text \<open>Assigning distinct keys one after the other rebuilds the list.\<close>

lemma obj_set_append_new: "k \<notin> set (map fst acc) \<Longrightarrow> obj_set acc k v = acc @ [(k, v)]"
  by (induction acc) auto

lemma spread_distinct_from:
  "distinct (map fst (acc @ kvs)) \<Longrightarrow> spread acc kvs = acc @ kvs"
proof (induction kvs arbitrary: acc)
  case Nil
  then show ?case by (simp add: spread_def)
next
  case (Cons kv kvs)
  obtain k v where kv: "kv = (k, v)" by (cases kv)
  have new: "k \<notin> set (map fst acc)" using Cons.prems kv by auto
  have d: "distinct (map fst ((acc @ [(k, v)]) @ kvs))" using Cons.prems kv by simp
  have "spread acc (kv # kvs) = spread (obj_set acc k v) kvs"
    by (simp add: spread_def kv)
  also have "\<dots> = spread (acc @ [(k, v)]) kvs" by (simp add: obj_set_append_new[OF new])
  also have "\<dots> = (acc @ [(k, v)]) @ kvs" by (rule Cons.IH[OF d])
  finally show ?case by (simp add: kv)
qed

lemma spread_distinct: "distinct (map fst kvs) \<Longrightarrow> spread [] kvs = kvs"
  using spread_distinct_from[of "[]" kvs] by simp

lemma parse_number_start:
  "parse_number s = Some (n, r) \<Longrightarrow> \<exists>c t. s = c # t \<and> (c = CHR ''-'' \<or> is_digit c)"
  by (cases s) (auto simp: parse_number_def Let_def split: list.splits if_splits option.splits)

lemma Number_toString_start:
  assumes "num_ok n"
  shows "\<exists>c t. Number_toString n = c # t \<and> (c = CHR ''-'' \<or> is_digit c)"
  using parse_number_start[of "Number_toString n" n "[]"] number_roundtrip[OF assms num_end_punct(1)]
  by simp

lemma val_start_simps:
  "val_start (CHR ''n'')" "val_start (CHR ''t'')" "val_start (CHR ''f'')" "val_start (CHR ''['')"
  "val_start (CHR ''{'')" "val_start (CHR ''-'')" "val_start (CHR 0x22)" "is_digit c \<Longrightarrow> val_start c"
  by (simp_all add: val_start_def)

lemma ser_start: "wf_val v \<Longrightarrow> \<exists>c t. ser g i v = c # t \<and> val_start c"
proof (cases v)
  case (JNum n)
  assume "wf_val v"
  then show ?thesis
    using JNum Number_toString_start[of n] by (auto simp: val_start_simps)
next
  case (JObj kvs)
  then show ?thesis by (auto simp: val_start_simps)
qed (auto simp: val_start_simps quote_def)

lemma join_with_start:
  assumes "ps \<noteq> []" and "\<exists>c t. hd ps = c # t \<and> P c"
  shows "\<exists>c t. join_with sep ps @ s = c # t \<and> P c"
proof (cases ps)
  case Nil
  with assms show ?thesis by simp
next
  case (Cons p qs)
  then show ?thesis using assms(2) by (cases qs) auto
qed

text \<open>The literals and the scalar values.\<close>

lemma parse_value_skip:
  "ws_only w \<Longrightarrow> \<not> is_ws c \<Longrightarrow> parse_value (w @ c # cs) = parse_value (c # cs)"
  by (simp add: parse_value.simps[of "w @ c # cs"] parse_value.simps[of "c # cs"]
      skip_ws_ws_start skip_ws_start)

lemma parse_value_null:
  "ws_only w \<Longrightarrow> parse_value (w @ ''null'' @ r) = Some (JNull, r)"
  using parse_value_skip[of w "CHR ''n''" "''ull'' @ r"]
  by (simp add: is_ws_def parse_value.simps[of "CHR ''n'' # CHR ''u'' # CHR ''l'' # CHR ''l'' # r"] skip_ws_def)

lemma parse_value_true:
  "ws_only w \<Longrightarrow> parse_value (w @ ''true'' @ r) = Some (JBool True, r)"
  using parse_value_skip[of w "CHR ''t''" "''rue'' @ r"]
  by (simp add: is_ws_def parse_value.simps[of "CHR ''t'' # CHR ''r'' # CHR ''u'' # CHR ''e'' # r"] skip_ws_def)

lemma parse_value_false:
  "ws_only w \<Longrightarrow> parse_value (w @ ''false'' @ r) = Some (JBool False, r)"
  using parse_value_skip[of w "CHR ''f''" "''alse'' @ r"]
  by (simp add: is_ws_def parse_value.simps[of "CHR ''f'' # CHR ''a'' # CHR ''l'' # CHR ''s'' # CHR ''e'' # r"] skip_ws_def)

lemma parse_value_string:
  "ws_only w \<Longrightarrow> parse_value (w @ quote s @ r) = Some (JStr s, r)"
  using parse_value_skip[of w "CHR 0x22" "concat (map escape_char s) @ CHR 0x22 # r"]
  by (simp add: is_ws_def quote_def skip_ws_def parse_chars_roundtrip
      parse_value.simps[of "CHR 0x22 # concat (map escape_char s) @ CHR 0x22 # r"])

lemma parse_value_number:
  assumes "ws_only w" and "num_ok n" and "num_end r"
  shows "parse_value (w @ Number_toString n @ r) = Some (JNum n, r)"
proof -
  obtain c t where ct: "Number_toString n = c # t" and c: "c = CHR ''-'' \<or> is_digit c"
    using Number_toString_start[OF assms(2)] by blast
  have nws: "\<not> is_ws c" using c by (auto simp: is_ws_def is_digit_def)
  have sk: "skip_ws (w @ c # t @ r) = c # t @ r"
    by (rule skip_ws_ws_start[OF assms(1) nws])
  have pn: "parse_number (c # t @ r) = Some (n, r)"
    using number_roundtrip[OF assms(2,3)] ct by simp
  have cne: "c \<noteq> CHR 0x22" "c \<noteq> CHR ''[''" "c \<noteq> CHR ''{''" "c \<noteq> CHR ''t''" "c \<noteq> CHR ''f''" "c \<noteq> CHR ''n''"
    using c by (auto simp: is_digit_def)
  show ?thesis
    unfolding ct
    by (subst parse_value.simps) (simp add: sk pn cne)
qed

text \<open>Arrays and objects, given that their parts are read back.\<close>

lemma parse_value_array:
  assumes pr: "\<And>x w r. x \<in> set xs \<Longrightarrow> ws_only w \<Longrightarrow> num_end r \<Longrightarrow>
                 parse_value (w @ pr x @ r) = Some (cl x, r)"
    and st: "\<And>x. x \<in> set xs \<Longrightarrow> \<exists>c t. pr x = c # t \<and> val_start c"
    and "xs \<noteq> []" and "ws_only w" and "ws_only w0" and "ws_only w1" and "ws_only w2"
  shows "parse_value (w @ CHR ''['' # w0 @ join_with (CHR '','' # w1) (map pr xs) @ w2 @ CHR '']'' # r)
           = Some (JArr (map cl xs), r)"
proof -
  let ?cs = "w0 @ join_with (CHR '','' # w1) (map pr xs) @ w2 @ CHR '']'' # r"
  have sk: "skip_ws (w @ CHR ''['' # ?cs) = CHR ''['' # ?cs"
    by (rule skip_ws_ws_start[OF assms(4)]) (rule punct_not_ws)
  have "\<exists>c t. hd (map pr xs) = c # t \<and> val_start c"
    using st[of "hd xs"] assms(3) by (simp add: hd_map)
  then obtain c t where ct: "join_with (CHR '','' # w1) (map pr xs) @ w2 @ CHR '']'' # r = c # t"
    and vs: "val_start c"
    using join_with_start[of "map pr xs" val_start "CHR '','' # w1" "w2 @ CHR '']'' # r"] assms(3)
    by auto
  have sk2: "skip_ws ?cs = c # t"
    unfolding ct by (rule skip_ws_ws_start[OF assms(5)]) (use vs val_start_not in blast)
  have nb: "c \<noteq> CHR '']''" using vs val_start_not by blast
  have pe: "parse_elems ?cs = Some (map cl xs, r)"
    by (rule parse_elems_join[OF pr assms(3,5,6,7)])
  show ?thesis
    by (subst parse_value.simps) (simp add: sk sk2 nb pe del: append_assoc)
qed

lemma parse_value_object:
  assumes pr: "\<And>k v w r. (k, v) \<in> set kvs \<Longrightarrow> ws_only w \<Longrightarrow> num_end r \<Longrightarrow>
                 parse_value (w @ pr v @ r) = Some (cl v, r)"
    and "kvs \<noteq> []" and "distinct (map fst kvs)"
    and "ws_only w" and "ws_only w0" and "ws_only w1" and "ws_only w2" and "ws_only w3"
  shows "parse_value
           (w @ CHR ''{'' # w0 @
            join_with (CHR '','' # w1) (map (\<lambda>(k, v). quote k @ CHR '':'' # w3 @ pr v) kvs) @
            w2 @ CHR ''}'' # r)
           = Some (JObj (map (\<lambda>(k, v). (k, cl v)) kvs), r)"
proof -
  let ?mem = "\<lambda>(k, v). quote k @ CHR '':'' # w3 @ pr v"
  let ?cs = "w0 @ join_with (CHR '','' # w1) (map ?mem kvs) @ w2 @ CHR ''}'' # r"
  have sk: "skip_ws (w @ CHR ''{'' # ?cs) = CHR ''{'' # ?cs"
    by (rule skip_ws_ws_start[OF assms(4)]) (rule punct_not_ws)
  have "\<exists>c t. hd (map ?mem kvs) = c # t \<and> c = CHR 0x22"
    using assms(2) by (cases kvs) (auto simp: quote_def)
  then obtain t where ct: "join_with (CHR '','' # w1) (map ?mem kvs) @ w2 @ CHR ''}'' # r = CHR 0x22 # t"
    using join_with_start[of "map ?mem kvs" "\<lambda>c. c = CHR 0x22" "CHR '','' # w1" "w2 @ CHR ''}'' # r"] assms(2)
    by auto
  have sk2: "skip_ws ?cs = CHR 0x22 # t"
    unfolding ct by (rule skip_ws_ws_start[OF assms(5)]) (rule punct_not_ws)
  have pm: "parse_members ?cs = Some (map (\<lambda>(k, v). (k, cl v)) kvs, r)"
    by (rule parse_members_join[OF pr assms(2,5,6,7,8)])
  have keys: "map fst (map (\<lambda>(k, v). (k, cl v)) kvs) = map fst kvs"
    by (induction kvs) auto
  have sp: "spread [] (map (\<lambda>(k, v). (k, cl v)) kvs) = map (\<lambda>(k, v). (k, cl v)) kvs"
    by (rule spread_distinct) (simp only: keys assms(3))
  show ?thesis
    by (subst parse_value.simps) (simp add: sk sk2 pm sp del: append_assoc)
qed

lemma parse_value_empty_array:
  "ws_only w \<Longrightarrow> parse_value (w @ ''[]'' @ r) = Some (JArr [], r)"
  using parse_value_skip[of w "CHR ''[''" "CHR '']'' # r"]
  by (simp add: is_ws_def parse_value.simps[of "CHR ''['' # CHR '']'' # r"] skip_ws_def)

lemma parse_value_empty_object:
  "ws_only w \<Longrightarrow> parse_value (w @ ''{}'' @ r) = Some (JObj [], r)"
  using parse_value_skip[of w "CHR ''{''" "CHR ''}'' # r"]
  by (simp add: is_ws_def parse_value.simps[of "CHR ''{'' # CHR ''}'' # r"] skip_ws_def)

text \<open>
  The serializer's output, read by the parser, gives the value back (as far as
  \<open>JSON.stringify\<close> keeps it), whatever white space precedes it and whatever follows it
  that cannot continue a number.
\<close>

lemma parse_value_ser:
  assumes g: "ws_only g"
  shows "wf_val v \<Longrightarrow> ws_only i \<Longrightarrow> ws_only w \<Longrightarrow> num_end r \<Longrightarrow>
         parse_value (w @ ser g i v @ r) = Some (clean v, r)"
proof (induction v arbitrary: i w r)
  case JUndefined
  then show ?case by (simp add: parse_value_null[simplified])
next
  case JNull
  then show ?case by (simp add: parse_value_null[simplified])
next
  case (JBool b)
  then show ?case by (simp add: parse_value_true[simplified] parse_value_false[simplified])
next
  case (JNum n)
  show ?case
  proof (cases "n = NaN")
    case True
    then show ?thesis using JNum by (simp add: parse_value_null[simplified])
  next
    case False
    then have "num_ok n" using JNum.prems(1) by simp
    then show ?thesis
      using False parse_value_number[OF JNum.prems(3) _ JNum.prems(4)] by simp
  qed
next
  case (JStr s)
  then show ?case by (simp add: parse_value_string)
next
  case (JArr xs)
  let ?i = "i @ g"
  have wi: "ws_only ?i" using JArr.prems(2) g by (simp add: ws_only_simps)
  have wf: "list_all wf_val xs" using JArr.prems(1) by (simp add: wf_elems_all)
  have pr: "\<And>x w r. x \<in> set xs \<Longrightarrow> ws_only w \<Longrightarrow> num_end r \<Longrightarrow>
              parse_value (w @ ser g ?i x @ r) = Some (clean x, r)"
    using JArr.IH wf wi by (simp add: list_all_iff)
  have st: "\<And>x. x \<in> set xs \<Longrightarrow> \<exists>c t. ser g ?i x = c # t \<and> val_start c"
    using wf ser_start by (simp add: list_all_iff)
  show ?case
  proof (cases "xs = []")
    case True
    then show ?thesis using parse_value_empty_array[OF JArr.prems(3), where r = r] by simp
  next
    case ne: False
    show ?thesis
    proof (cases "g = []")
      case True
      have eq: "w @ ser g i (JArr xs) @ r
                  = w @ CHR ''['' # [] @ join_with (CHR '','' # []) (map (ser g ?i) xs) @ [] @ CHR '']'' # r"
        using ne True by (simp add: ser_elems_map)
      show ?thesis
        unfolding eq
        using parse_value_array[where ?w0.0 = "[]" and ?w1.0 = "[]" and ?w2.0 = "[]" and r = r, OF pr st ne JArr.prems(3)]
        by (simp add: ws_only_simps clean_elems_map)
    next
      case False
      have eq: "w @ ser g i (JArr xs) @ r
                  = w @ CHR ''['' # (CHR 0x0A # ?i) @
                    join_with (CHR '','' # (CHR 0x0A # ?i)) (map (ser g ?i) xs) @
                    (CHR 0x0A # i) @ CHR '']'' # r"
        using ne False by (simp add: ser_elems_map)
      have w0: "ws_only (CHR 0x0A # ?i)" using wi by (simp add: ws_only_simps is_ws_simps)
      have w2: "ws_only (CHR 0x0A # i)" using JArr.prems(2) by (simp add: ws_only_simps is_ws_simps)
      show ?thesis
        unfolding eq
        using parse_value_array[where r = r, OF pr st ne JArr.prems(3) w0 w0 w2]
        by (simp add: clean_elems_map)
    qed
  qed
next
  case (JObj kvs)
  let ?i = "i @ g"
  let ?dm = "defined_members kvs"
  let ?w3 = "if g = [] then [] else '' ''"
  have wi: "ws_only ?i" using JObj.prems(2) g by (simp add: ws_only_simps)
  have w3: "ws_only ?w3" by (simp add: ws_only_simps is_ws_simps)
  have wf: "list_all (\<lambda>(k, v). wf_val v) kvs" and dk: "distinct (map fst kvs)"
    using JObj.prems(1) by (simp_all add: wf_members_all)
  have pr0: "\<And>k v w r. (k, v) \<in> set kvs \<Longrightarrow> ws_only w \<Longrightarrow> num_end r \<Longrightarrow>
              parse_value (w @ ser g ?i v @ r) = Some (clean v, r)"
  proof -
    fix k v w r
    assume m: "(k, v) \<in> set kvs" and w: "ws_only w" and r: "num_end r"
    have "wf_val v" using wf m by (auto simp: list_all_iff)
    then show "parse_value (w @ ser g ?i v @ r) = Some (clean v, r)"
      using JObj.IH[of "(k, v)" v ?i w r] m wi w r by simp
  qed
  have pr: "\<And>k v w r. (k, v) \<in> set ?dm \<Longrightarrow> ws_only w \<Longrightarrow> num_end r \<Longrightarrow>
              parse_value (w @ ser g ?i v @ r) = Some (clean v, r)"
    using pr0 defined_members_subset[of kvs] by blast
  have dd: "distinct (map fst ?dm)" by (rule distinct_defined_members[OF dk])
  have sm: "ser_members g ?i kvs = map (\<lambda>(k, v). quote k @ CHR '':'' # ?w3 @ ser g ?i v) ?dm"
    by (rule ser_members_map)
  show ?case
  proof (cases "?dm = []")
    case True
    then show ?thesis
      using parse_value_empty_object[OF JObj.prems(3), where r = r]
      by (simp add: sm clean_members_map)
  next
    case ne: False
    have nes: "ser_members g ?i kvs \<noteq> []" using ne by (simp add: sm)
    show ?thesis
    proof (cases "g = []")
      case True
      have eq: "w @ ser g i (JObj kvs) @ r
                  = w @ CHR ''{'' # [] @
                    join_with (CHR '','' # []) (map (\<lambda>(k, v). quote k @ CHR '':'' # ?w3 @ ser g ?i v) ?dm) @
                    [] @ CHR ''}'' # r"
        using nes True unfolding sm[symmetric] by simp
      show ?thesis
        unfolding eq
        using parse_value_object[where ?w0.0 = "[]" and ?w1.0 = "[]" and ?w2.0 = "[]" and r = r, OF pr ne dd JObj.prems(3) _ _ _ w3]
        by (simp add: ws_only_simps clean_members_map)
    next
      case False
      have eq: "w @ ser g i (JObj kvs) @ r
                  = w @ CHR ''{'' # (CHR 0x0A # ?i) @
                    join_with (CHR '','' # (CHR 0x0A # ?i))
                      (map (\<lambda>(k, v). quote k @ CHR '':'' # ?w3 @ ser g ?i v) ?dm) @
                    (CHR 0x0A # i) @ CHR ''}'' # r"
        using nes False unfolding sm[symmetric] by simp
      have w0: "ws_only (CHR 0x0A # ?i)" using wi by (simp add: ws_only_simps is_ws_simps)
      have w2: "ws_only (CHR 0x0A # i)" using JObj.prems(2) by (simp add: ws_only_simps is_ws_simps)
      show ?thesis
        unfolding eq
        using parse_value_object[where r = r, OF pr ne dd JObj.prems(3) w0 w0 w2 w3]
        by (simp add: clean_members_map)
    qed
  qed
qed

lemma JSON_parse_ser:
  assumes "ws_only g" and "wf_val v"
  shows "JSON_parse (ser g [] v) = Some (clean v)"
  using parse_value_ser[OF assms(1,2), where i = "[]" and w = "[]" and r = "[]"]
  by (simp add: JSON_parse_def ws_only_simps num_end_punct skip_ws_def)

lemma is_json_clean:
  "is_json v \<Longrightarrow> clean v = v \<and> wf_val v \<and> v \<noteq> JUndefined"
  "are_json xs \<Longrightarrow> clean_elems xs = xs \<and> wf_elems xs"
  "members_json kvs \<Longrightarrow> clean_members kvs = kvs \<and> wf_members kvs"
  by (induction v and xs and kvs rule: is_json_are_json_members_json.induct) auto

lemma JSON_roundtrip:
  assumes "ws_only g" and "is_json v"
  shows "\<exists>t. JSON_stringify g v = Some t \<and> JSON_parse t = Some v"
  using JSON_parse_ser[OF assms(1), of v] is_json_clean(1)[OF assms(2)]
  by (simp add: JSON_stringify_def)

section \<open>Properties of the credential resolver and the worker\<close>

lemma or_undefined_falsy: "or_undefined v = None \<longleftrightarrow> falsy_str v"
  by (simp add: or_undefined_def falsy_str_def split: option.splits)

lemma falsy_or_undefined: "falsy_str (or_undefined v) = falsy_str v"
  by (simp add: or_undefined_def falsy_str_def split: option.splits)

lemma validate_parse_ok:
  "validateCredentials (parseTenantCredentials req) = Inr u \<longleftrightarrow>
     \<not> falsy_str (headers_get req ''X-1Password-Connect-Token'') \<and>
     \<not> falsy_str (headers_get req ''X-1Password-Connect-Host'')"
  by (simp add: validateCredentials_def parseTenantCredentials_def falsy_or_undefined)

text \<open>
  C10. An empty credential header is read as \<open>undefined\<close>, exactly as an absent one, and
  the request is then answered as if the header had been left out: the two requests get
  the same answer from the worker, and on POST /mcp that answer is the 401 response.
\<close>

theorem empty_credential_header_as_absent:
  assumes "name = ''X-1Password-Connect-Token'' \<or> name = ''X-1Password-Connect-Host''"
  shows "parseTenantCredentials (req\<lparr>headers_get := (headers_get req)(name := Some [])\<rparr>) =
         parseTenantCredentials (req\<lparr>headers_get := (headers_get req)(name := None)\<rparr>)
       \<and> (if name = ''X-1Password-Connect-Token''
            then connectToken (parseTenantCredentials (req\<lparr>headers_get := (headers_get req)(name := Some [])\<rparr>))
            else connectHost (parseTenantCredentials (req\<lparr>headers_get := (headers_get req)(name := Some [])\<rparr>)))
           = None
       \<and> (\<exists>e. validateCredentials
                  (parseTenantCredentials (req\<lparr>headers_get := (headers_get req)(name := Some [])\<rparr>)) = Inl e)
       \<and> worker_fetch (req\<lparr>headers_get := (headers_get req)(name := Some [])\<rparr>) =
         worker_fetch (req\<lparr>headers_get := (headers_get req)(name := None)\<rparr>)
       \<and> (pathname req = ''/mcp'' \<and> req_method req = ''POST'' \<longrightarrow>
            (\<exists>r. worker_fetch (req\<lparr>headers_get := (headers_get req)(name := Some [])\<rparr>) = Respond r
                 \<and> res_status r = 401))"
  using assms
  by (auto simp: parseTenantCredentials_def or_undefined_def worker_fetch_def
      validateCredentials_def falsy_str_def split: option.splits)


theorem empty_credential_header_as_absent_witness:
  "worker_fetch (demo_request\<lparr>headers_get := (headers_get demo_request)(''X-1Password-Connect-Token'' := Some [])\<rparr>) =
   worker_fetch (demo_request\<lparr>headers_get := (headers_get demo_request)(''X-1Password-Connect-Token'' := None)\<rparr>)
   \<and> (\<exists>r. worker_fetch (demo_request\<lparr>headers_get := (headers_get demo_request)(''X-1Password-Connect-Token'' := Some [])\<rparr>) = Respond r
          \<and> res_status r = 401)"
proof -
  have h: "pathname demo_request = ''/mcp'' \<and> req_method demo_request = ''POST''"
    by (simp add: demo_request_def)
  from empty_credential_header_as_absent[of "''X-1Password-Connect-Token''" demo_request] h
  show ?thesis by blast
qed

section \<open>Properties of the client\<close>

lemma getAuthHeaders_token:
  "getAuthHeaders this = Inr h \<longleftrightarrow>
     (\<exists>t. connectToken (credentials this) = Some t \<and> t \<noteq> [] \<and>
          h = [(''Authorization'', ''Bearer '' @ t), (''Content-Type'', ''application/json'')])"
  by (auto simp: getAuthHeaders_def falsy_str_def split: option.splits)

lemma map_of_obj_set: "map_of (obj_set kvs k v) = (map_of kvs)(k \<mapsto> v)"
  by (induction kvs) (auto simp: fun_eq_iff)

lemma map_of_spread: "map_of (spread a b) = map_of a ++ map_of (rev b)"
proof -
  have "map_of (foldl (\<lambda>acc (k, v). obj_set acc k v) a b) = map_of a ++ map_of (rev b)" for a :: "(string \<times> 'a) list"
  proof (induction b arbitrary: a)
    case Nil
    then show ?case by simp
  next
    case (Cons p b)
    obtain k v where p: "p = (k, v)" by (cases p)
    show ?case
      by (simp add: p Cons.IH map_of_obj_set fun_eq_iff map_add_def split: option.splits)
  qed
  then show ?thesis by (simp add: spread_def)
qed

lemma obj_get_map_of: "obj_get kvs k = (case map_of kvs k of None \<Rightarrow> JUndefined | Some v \<Rightarrow> v)"
  by (induction kvs) auto

lemma fetch_args_Inr:
  "fetch_args this ep opts = Inr rq \<longleftrightarrow>
     (\<exists>t. connectToken (credentials this) = Some t \<and> t \<noteq> [] \<and>
          rq = \<lparr>url = baseUrl this @ ep, http_method = init_method opts,
                headers = spread [(''Authorization'', ''Bearer '' @ t),
                                  (''Content-Type'', ''application/json'')]
                            (case init_headers opts of None \<Rightarrow> [] | Some h \<Rightarrow> h),
                body = init_body opts\<rparr>)"
  by (auto simp: fetch_args_def getAuthHeaders_def falsy_str_def spread_def split: option.splits sum.splits)

text \<open>
  C1. The client is a function of the credentials alone. Its base URL is computed from
  \<open>connectHost\<close> and its authorization header from \<open>connectToken\<close>; every request it
  hands to \<open>fetch\<close> (through \<open>request\<close>, \<open>requestRaw\<close> or \<open>heartbeat\<close>) goes to that base
  URL and, unless the caller's own headers replace it, carries that token; two clients
  built from equal credentials build equal requests; and a request that carries a bearer
  token carries the token of the credentials its client was built from.
\<close>

theorem client_bound_to_its_credentials:
  "baseUrl (createOnePasswordClient c) = client_host (connectHost c) @ ''/v1''
   \<and> (\<forall>c'. connectHost c' = connectHost c \<longrightarrow>
          baseUrl (createOnePasswordClient c') = baseUrl (createOnePasswordClient c))
   \<and> (\<forall>c'. connectToken c' = connectToken c \<longrightarrow>
          getAuthHeaders (createOnePasswordClient c') = getAuthHeaders (createOnePasswordClient c))
   \<and> (\<forall>ep opts rq. fetch_args (createOnePasswordClient c) ep opts = Inr rq \<longrightarrow>
          url rq = client_host (connectHost c) @ ''/v1'' @ ep \<and>
          (\<exists>t. connectToken c = Some t \<and> t \<noteq> [] \<and>
               (map_of (case init_headers opts of None \<Rightarrow> [] | Some h \<Rightarrow> rev h) ''Authorization'' = None
                  \<longrightarrow> map_of (headers rq) ''Authorization'' = Some (''Bearer '' @ t))))
   \<and> (\<forall>rq. heartbeat_args (createOnePasswordClient c) = Inr rq \<longrightarrow>
          url rq = client_host (connectHost c) @ ''/v1/heartbeat'' \<and>
          (\<exists>t. connectToken c = Some t \<and> t \<noteq> [] \<and>
               map_of (headers rq) ''Authorization'' = Some (''Bearer '' @ t)))
   \<and> (\<forall>c' ep opts. connectHost c' = connectHost c \<and> connectToken c' = connectToken c \<longrightarrow>
          fetch_args (createOnePasswordClient c') ep opts =
            fetch_args (createOnePasswordClient c) ep opts \<and>
          heartbeat_args (createOnePasswordClient c') = heartbeat_args (createOnePasswordClient c))"
proof (intro conjI allI impI)
  show "baseUrl (createOnePasswordClient c) = client_host (connectHost c) @ ''/v1''"
    by (simp add: createOnePasswordClient_def)
next
  fix c' :: TenantCredentials
  assume "connectHost c' = connectHost c"
  then show "baseUrl (createOnePasswordClient c') = baseUrl (createOnePasswordClient c)"
    by (simp add: createOnePasswordClient_def)
next
  fix c' :: TenantCredentials
  assume "connectToken c' = connectToken c"
  then show "getAuthHeaders (createOnePasswordClient c') = getAuthHeaders (createOnePasswordClient c)"
    by (simp add: createOnePasswordClient_def getAuthHeaders_def)
next
  fix ep opts rq
  assume a: "fetch_args (createOnePasswordClient c) ep opts = Inr rq"
  then show "url rq = client_host (connectHost c) @ ''/v1'' @ ep"
    by (auto simp: fetch_args_Inr createOnePasswordClient_def)
  from a obtain t where t: "connectToken c = Some t" "t \<noteq> []"
    and rq: "headers rq = spread [(''Authorization'', ''Bearer '' @ t),
                                  (''Content-Type'', ''application/json'')]
                            (case init_headers opts of None \<Rightarrow> [] | Some h \<Rightarrow> h)"
    by (auto simp: fetch_args_Inr createOnePasswordClient_def)
  show "\<exists>t. connectToken c = Some t \<and> t \<noteq> [] \<and>
            (map_of (case init_headers opts of None \<Rightarrow> [] | Some h \<Rightarrow> rev h) ''Authorization'' = None
               \<longrightarrow> map_of (headers rq) ''Authorization'' = Some (''Bearer '' @ t))"
    using t by (auto simp: rq map_of_spread map_add_def split: option.splits)
next
  fix rq
  assume a: "heartbeat_args (createOnePasswordClient c) = Inr rq"
  then show "url rq = client_host (connectHost c) @ ''/v1/heartbeat''"
    by (auto simp: heartbeat_args_def createOnePasswordClient_def split: sum.splits)
  from a show "\<exists>t. connectToken c = Some t \<and> t \<noteq> [] \<and>
                 map_of (headers rq) ''Authorization'' = Some (''Bearer '' @ t)"
    by (auto simp: heartbeat_args_def createOnePasswordClient_def getAuthHeaders_def
        falsy_str_def split: sum.splits option.splits if_splits)
next
  fix c' :: TenantCredentials and ep opts
  assume "connectHost c' = connectHost c \<and> connectToken c' = connectToken c"
  then have "c' = c" by simp
  then show "fetch_args (createOnePasswordClient c') ep opts =
            fetch_args (createOnePasswordClient c) ep opts" by simp
next
  fix c' :: TenantCredentials and ep :: string and opts :: request_init
  assume "connectHost c' = connectHost c \<and> connectToken c' = connectToken c"
  then have "c' = c" by simp
  then show "heartbeat_args (createOnePasswordClient c') = heartbeat_args (createOnePasswordClient c)"
    by simp
qed

theorem client_bound_to_its_credentials_witness:
  "\<exists>rq. fetch_args (createOnePasswordClient demo_credentials) ''/vaults'' no_options = Inr rq
        \<and> url rq = ''http://op.test/v1/vaults''
        \<and> map_of (headers rq) ''Authorization'' = Some ''Bearer tok''"
proof -
  obtain rq where rq: "fetch_args (createOnePasswordClient demo_credentials) ''/vaults'' no_options = Inr rq"
    by (simp add: fetch_args_Inr createOnePasswordClient_def demo_credentials_def)
  have nh: "map_of (case init_headers no_options of None \<Rightarrow> [] | Some h \<Rightarrow> rev h) ''Authorization'' = None"
    by (simp add: no_options_def)
  from client_bound_to_its_credentials[of demo_credentials] rq
  have "url rq = client_host (connectHost demo_credentials) @ ''/v1'' @ ''/vaults'' \<and>
        (\<exists>t. connectToken demo_credentials = Some t \<and> t \<noteq> [] \<and>
             (map_of (case init_headers no_options of None \<Rightarrow> [] | Some h \<Rightarrow> rev h) ''Authorization'' = None
                \<longrightarrow> map_of (headers rq) ''Authorization'' = Some (''Bearer '' @ t)))"
    by blast
  with nh have "url rq = ''http://op.test/v1/vaults'' \<and>
                map_of (headers rq) ''Authorization'' = Some ''Bearer tok''"
    by (auto simp: demo_credentials_def client_host_def strip_trailing_slash_def)
  with rq show ?thesis by blast
qed

lemma request_Inr_result:
  "fetch_args this ep opts = Inr rq \<Longrightarrow> net rq = Inr response \<Longrightarrow>
   request this net ep opts = request_result ep response"
  by (simp add: request_def)

text \<open>
  C5. Whatever \<open>limit\<close> and \<open>offset\<close> are asked for, a result of \<open>listActivity\<close> has
  \<open>hasMore = false\<close>, and its \<open>count\<close> is the length of its \<open>items\<close> when they are an
  array; and when the backend answers the request with a 2xx status (other than 204) and
  a JSON array, \<open>listActivity\<close> returns that array wrapped in this way.
\<close>

theorem listActivity_wraps_array:
  "(\<forall>r. listActivity this net params = Inr r \<longrightarrow>
        hasMore r = False \<and>
        (\<forall>xs. items r = JArr xs \<longrightarrow> count r = JNum (Dec (int (length xs)) 0)))
   \<and> (\<forall>rq response xs.
        fetch_args this (with_query ''/activity'' (activity_query params)) no_options = Inr rq \<and>
        net rq = Inr response \<and> response_ok response \<and> status response \<noteq> 204 \<and>
        JSON_parse (response_text response) = Some (JArr xs) \<longrightarrow>
        listActivity this net params =
          Inr \<lparr>items = JArr xs, count = JNum (Dec (int (length xs)) 0), hasMore = False\<rparr>)"
proof (intro conjI allI impI)
  fix r
  assume a: "listActivity this net params = Inr r"
  then show "hasMore r = False"
    by (auto simp: listActivity_def split: sum.splits)
next
  fix r xs
  assume a: "listActivity this net params = Inr r" and b: "items r = JArr xs"
  then show "count r = JNum (Dec (int (length xs)) 0)"
    by (auto simp: listActivity_def split: sum.splits)
next
  fix rq response xs
  assume a: "fetch_args this (with_query ''/activity'' (activity_query params)) no_options = Inr rq \<and>
        net rq = Inr response \<and> response_ok response \<and> status response \<noteq> 204 \<and>
        JSON_parse (response_text response) = Some (JArr xs)"
  then have "request this net (with_query ''/activity'' (activity_query params)) no_options
             = request_result (with_query ''/activity'' (activity_query params)) response"
    by (simp add: request_Inr_result)
  also have "\<dots> = Inr (JArr xs)"
    using a by (auto simp: request_result_def response_ok_def response_json_def)
  finally show "listActivity this net params =
          Inr \<lparr>items = JArr xs, count = JNum (Dec (int (length xs)) 0), hasMore = False\<rparr>"
    by (simp add: listActivity_def)
qed

theorem listActivity_wraps_array_witness:
  "listActivity (createOnePasswordClient demo_credentials) (demo_network 200 ''[1, true]'')
     (Some \<lparr>limit = Some (Dec 5 0), offset = None\<rparr>)
   = Inr \<lparr>items = JArr [JNum (Dec 1 0), JBool True], count = JNum (Dec 2 0), hasMore = False\<rparr>"
proof -
  let ?c = "createOnePasswordClient demo_credentials"
  let ?net = "demo_network 200 ''[1, true]''"
  let ?p = "Some \<lparr>limit = Some (Dec 5 0), offset = None\<rparr>"
  have p: "JSON_parse ''[1, true]'' = Some (JArr [JNum (Dec 1 0), JBool True])"
    by code_simp
  obtain rq where rq: "fetch_args ?c (with_query ''/activity'' (activity_query ?p)) no_options = Inr rq"
    by (simp add: fetch_args_Inr createOnePasswordClient_def demo_credentials_def)
  have "fetch_args ?c (with_query ''/activity'' (activity_query ?p)) no_options = Inr rq \<and>
        ?net rq = Inr \<lparr>status = 200, response_header = (\<lambda>h. None), response_text = ''[1, true]''\<rparr> \<and>
        response_ok \<lparr>status = 200, response_header = (\<lambda>h. None), response_text = ''[1, true]''\<rparr> \<and>
        status \<lparr>status = 200, response_header = (\<lambda>h. None), response_text = ''[1, true]''\<rparr> \<noteq> 204 \<and>
        JSON_parse (response_text \<lparr>status = 200, response_header = (\<lambda>h. None), response_text = ''[1, true]''\<rparr>)
          = Some (JArr [JNum (Dec 1 0), JBool True])"
    using rq p by (simp add: demo_network_def response_ok_def)
  with listActivity_wraps_array[of ?c ?net ?p]
  have "listActivity ?c ?net ?p =
          Inr \<lparr>items = JArr [JNum (Dec 1 0), JBool True],
               count = JNum (Dec (int (length [JNum (Dec 1 0), JBool True])) 0), hasMore = False\<rparr>"
    by blast
  then show ?thesis by simp
qed

section \<open>Properties of the request helper\<close>

lemma parseInt10_no_digit:
  "takeWhile is_digit (drop_js_ws s) = [] \<Longrightarrow>
   drop_js_ws s = [] \<or> (hd (drop_js_ws s) \<noteq> CHR ''-'' \<and> hd (drop_js_ws s) \<noteq> CHR ''+'') \<Longrightarrow>
   parseInt10 s = NaN"
  by (auto simp: parseInt10_def Let_def)

text \<open>An HTTP date starts with no white space, no sign and no digit.\<close>

lemma parseInt10_http_date: "parseInt10 ''Wed, 21 Oct 2015 07:28:00 GMT'' = NaN"
proof -
  have "drop_js_ws ''Wed, 21 Oct 2015 07:28:00 GMT'' = ''Wed, 21 Oct 2015 07:28:00 GMT''"
    by (subst drop_js_ws.simps) (simp add: is_js_ws_def is_js_ws3_def)
  then show ?thesis
    by (simp add: parseInt10_def is_digit_def)
qed

text \<open>
  What \<open>request\<close> makes of the four statuses: the class, status, code and retryable flag
  of the error, and for 429 the seconds it carries: 60 for an absent or empty
  \<open>Retry-After\<close> header, and otherwise whatever \<open>parseInt\<close> makes of it.
\<close>

lemma request_result_typed_failures:
  "status response = 401 \<Longrightarrow>
     \<exists>e. request_result ep response = Inl (Api e) \<and> err_class e = C_AuthenticationError \<and>
         statusCode e = Some 401 \<and> code e = ''AUTHENTICATION_FAILED'' \<and> \<not> retryable e"
  "status response = 403 \<Longrightarrow>
     \<exists>e. request_result ep response = Inl (Api e) \<and> err_class e = C_AuthorizationError \<and>
         statusCode e = Some 403 \<and> code e = ''AUTHORIZATION_FAILED'' \<and> \<not> retryable e"
  "status response = 404 \<Longrightarrow>
     \<exists>e. request_result ep response = Inl (Api e) \<and> err_class e = C_NotFoundError \<and>
         statusCode e = Some 404 \<and> code e = ''NOT_FOUND'' \<and> \<not> retryable e"
  "status response = 429 \<Longrightarrow>
     \<exists>e. request_result ep response = Inl (Api e) \<and> err_class e = C_RateLimitError \<and>
         statusCode e = Some 429 \<and> code e = ''RATE_LIMIT_EXCEEDED'' \<and> retryable e \<and>
         retryAfterSeconds e =
           Some (case response_header response ''Retry-After'' of
                   None \<Rightarrow> Dec 60 0
                 | Some h \<Rightarrow> if h = [] then Dec 60 0 else parseInt10 h)"
  by (simp_all add: request_result_def AuthenticationError_def AuthorizationError_def
      NotFoundError_def RateLimitError_def OnePasswordApiError_def)

text \<open>
  C2. A 429 response whose \<open>Retry-After\<close> header is not numeric (here an HTTP date, which
  the header may legitimately hold): the error raised carries \<open>NaN\<close> seconds, not 60.
\<close>

theorem retry_after_not_numeric_gives_NaN:
  "request_result ''/vaults''
     \<lparr>status = 429,
      response_header = (\<lambda>h. if h = ''Retry-After'' then Some ''Wed, 21 Oct 2015 07:28:00 GMT'' else None),
      response_text = []\<rparr>
   = Inl (Api (RateLimitError ''Rate limit exceeded'' NaN))
   \<and> retryAfterSeconds (RateLimitError ''Rate limit exceeded'' NaN) = Some NaN
   \<and> parseInt10 ''Wed, 21 Oct 2015 07:28:00 GMT'' \<noteq> Dec 60 0"
  by (simp add: request_result_def parseInt10_http_date RateLimitError_def
      OnePasswordApiError_def)

text \<open>
  C8. A response that is not 2xx and not 401, 403, 404 or 429, whose body does not parse
  as JSON, or parses to a value without a \<open>message\<close> and without an \<open>error\<close> property
  (\<open>null\<close> included): \<open>request\<close> raises the generic error with the message
  \<open>API error: <status>\<close>, the status in decimal; no parse error or type error gets out.
\<close>

theorem request_generic_error_default_message:
  assumes "\<not> response_ok response"
    and "status response \<notin> {401, 403, 404, 429}"
    and "JSON_parse (response_text response) = None \<or>
         (\<exists>j. JSON_parse (response_text response) = Some j \<and>
              (\<forall>kvs. j = JObj kvs \<longrightarrow>
                 ''message'' \<notin> set (map fst kvs) \<and> ''error'' \<notin> set (map fst kvs)))"
  shows "request_result endpoint response =
           Inl (Api (OnePasswordApiError (''API error: '' @ show_nat (status response))
                       (Some (status response)) None False))
         \<and> message (OnePasswordApiError (''API error: '' @ show_nat (status response))
                       (Some (status response)) None False)
             = ''API error: '' @ show_nat (status response)"
proof -
  have absent: "k \<notin> set (map fst kvs) \<Longrightarrow> obj_get kvs k = JUndefined" for k kvs
    by (induction kvs) auto
  have "error_message (response_text response) (status response)
          = JStr (''API error: '' @ show_nat (status response))"
  proof (cases "JSON_parse (response_text response)")
    case None
    then show ?thesis by (simp add: error_message_def)
  next
    case (Some j)
    with assms(3) have nk: "\<forall>kvs. j = JObj kvs \<longrightarrow>
                 ''message'' \<notin> set (map fst kvs) \<and> ''error'' \<notin> set (map fst kvs)"
      by simp
    show ?thesis
      using nk by (cases j) (simp_all add: error_message_def Some absent)
  qed
  with assms(1,2) show ?thesis
    by (simp add: request_result_def OnePasswordApiError_def)
qed

theorem request_generic_error_default_message_witness:
  "request_result ''/health'' \<lparr>status = 500, response_header = (\<lambda>h. None), response_text = ''oops''\<rparr>
     = Inl (Api (OnePasswordApiError ''API error: 500'' (Some 500) None False))"
proof -
  let ?r = "\<lparr>status = 500, response_header = (\<lambda>h. None), response_text = ''oops''\<rparr>"
  have p: "JSON_parse ''oops'' = None" by code_simp
  have s: "show_nat 500 = ''500''" by code_simp
  have a: "\<not> response_ok ?r" by (simp add: response_ok_def)
  have b: "status ?r \<notin> {401, 403, 404, 429}" by simp
  have c: "JSON_parse (response_text ?r) = None \<or>
         (\<exists>j. JSON_parse (response_text ?r) = Some j \<and>
              (\<forall>kvs. j = JObj kvs \<longrightarrow>
                 ''message'' \<notin> set (map fst kvs) \<and> ''error'' \<notin> set (map fst kvs)))"
    using p by simp
  from request_generic_error_default_message[OF a b c, of "''/health''"] s
  show ?thesis by simp
qed

section \<open>Properties of testConnection\<close>







section \<open>Properties of the JSON payloads\<close>

lemma ws_only_two_spaces: "ws_only ''  ''"
  by (simp add: ws_only_simps is_ws_simps)

lemma obj_get_absent: "k \<notin> set (map fst kvs) \<Longrightarrow> obj_get kvs k = JUndefined"
  by (induction kvs) auto

lemma obj_get_obj_set: "obj_get (obj_set kvs k v) k = v"
  by (induction kvs) auto

lemma fst_obj_set:
  "map fst (obj_set kvs k v) = (if k \<in> set (map fst kvs) then map fst kvs else map fst kvs @ [k])"
proof (induction kvs)
  case Nil
  show ?case by simp
next
  case (Cons kv kvs)
  obtain k' v' where kv: "kv = (k', v')" by (cases kv)
  show ?case
  proof (cases "k' = k")
    case True
    then show ?thesis by (simp add: kv)
  next
    case False
    then show ?thesis using Cons.IH by (simp add: kv)
  qed
qed

lemma distinct_obj_set: "distinct (map fst kvs) \<Longrightarrow> distinct (map fst (obj_set kvs k v))"
  by (simp only: fst_obj_set split: if_splits) simp

lemma wf_members_obj_set: "wf_members kvs \<Longrightarrow> wf_val v \<Longrightarrow> wf_members (obj_set kvs k v)"
  by (induction kvs) auto

lemma fst_clean_members_subset: "set (map fst (clean_members kvs)) \<subseteq> set (map fst kvs)"
proof -
  have "set (map fst (clean_members kvs)) = fst ` set (defined_members kvs)"
    by (simp only: fst_clean_members set_map)
  then show ?thesis using defined_members_subset[of kvs] by auto
qed

text \<open>A property that is not \<open>undefined\<close> survives serialization, cleaned.\<close>

lemma obj_get_clean_members:
  "distinct (map fst kvs) \<Longrightarrow>
   obj_get (clean_members kvs) k =
     (if obj_get kvs k = JUndefined then JUndefined else clean (obj_get kvs k))"
proof (induction kvs)
  case Nil
  then show ?case by simp
next
  case (Cons kv kvs)
  obtain k' v where kv: "kv = (k', v)" by (cases kv)
  have nk: "k' \<notin> set (map fst (clean_members kvs))"
    using Cons.prems fst_clean_members_subset[of kvs] by (auto simp: kv)
  show ?case
    using Cons nk by (auto simp: kv obj_get_absent)
qed

text \<open>With a token, \<open>request\<close> hands exactly one request to the network.\<close>

lemma request_sends:
  assumes "connectToken (credentials this) = Some t" and "t \<noteq> []"
  shows "request this net ep opts =
         (case net \<lparr>url = baseUrl this @ ep, http_method = init_method opts,
                     headers = spread [(''Authorization'', ''Bearer '' @ t),
                                       (''Content-Type'', ''application/json'')]
                                 (case init_headers opts of None \<Rightarrow> [] | Some h \<Rightarrow> h),
                     body = init_body opts\<rparr> of
            Inl e \<Rightarrow> Inl e
          | Inr response \<Rightarrow> request_result ep response)"
  using assms
  by (simp add: request_def fetch_args_def getAuthHeaders_def falsy_str_def spread_def)

lemma itemWithVault_parsed:
  assumes "wf_val (JObj item)"
  shows "\<exists>payload kvs. JSON_stringify [] (itemWithVault v item) = Some payload \<and>
           JSON_parse payload = Some (JObj kvs) \<and>
           obj_get kvs ''vault'' = JObj [(''id'', JStr v)]"
proof -
  let ?o = "obj_set item ''vault'' (JObj [(''id'', JStr v)])"
  have d: "distinct (map fst item)" and m: "wf_members item" using assms by simp_all
  have sp: "spread [] item = item" by (rule spread_distinct[OF d])
  have d': "distinct (map fst ?o)" by (rule distinct_obj_set[OF d])
  have m': "wf_members ?o" by (rule wf_members_obj_set[OF m]) simp
  have wf: "wf_val (JObj ?o)" using d' m' by simp
  have p: "JSON_parse (ser [] [] (JObj ?o)) = Some (clean (JObj ?o))"
    by (rule JSON_parse_ser[OF _ wf]) (simp add: ws_only_simps)
  have g: "obj_get (clean_members ?o) ''vault'' = JObj [(''id'', JStr v)]"
    by (simp add: obj_get_clean_members[OF d'] obj_get_obj_set)
  show ?thesis
    using p g by (simp add: itemWithVault_def sp JSON_stringify_def)
qed

lemma create_item_input_wf:
  assumes "wf_val flds" "wf_val sections" "wf_val urls" "wf_val tags" "wf_val favorite"
  shows "wf_val (JObj (create_item_input vaultId title category flds sections urls tags favorite))"
  using assms by (simp add: create_item_input_def)

text \<open>
  C3. A POST to /mcp in which a credential header is absent is answered by the worker
  itself, with status 401 and a JSON body whose \<open>required_headers\<close> is the list of both
  header names, whichever of the two is missing; the request is not handed to a server,
  so no tool runs and no client is built.
\<close>

theorem mcp_missing_header_unauthorized:
  assumes "pathname req = ''/mcp''" and "req_method req = ''POST''"
    and "headers_get req ''X-1Password-Connect-Token'' = None \<or>
         headers_get req ''X-1Password-Connect-Host'' = None"
  shows "\<exists>r t kvs. worker_fetch req = Respond r \<and> res_status r = 401 \<and>
           map_of (res_headers r) ''Content-Type'' = Some ''application/json'' \<and>
           res_body r = Some t \<and> JSON_parse t = Some (JObj kvs) \<and>
           obj_get kvs ''error'' = JStr ''Unauthorized'' \<and>
           obj_get kvs ''required_headers'' =
             JArr [JStr ''X-1Password-Connect-Token'', JStr ''X-1Password-Connect-Host'']"
proof -
  have "\<not> (\<not> falsy_str (headers_get req ''X-1Password-Connect-Token'') \<and>
            \<not> falsy_str (headers_get req ''X-1Password-Connect-Host''))"
    using assms(3) by (auto simp: falsy_str_def)
  then obtain e where e: "validateCredentials (parseTenantCredentials req) = Inl e"
    using validate_parse_ok[of req "()"]
    by (cases "validateCredentials (parseTenantCredentials req)") auto
  have j: "is_json (unauthorized_body e)" by (simp add: unauthorized_body_def)
  obtain t where t: "JSON_stringify [] (unauthorized_body e) = Some t"
    and p: "JSON_parse t = Some (unauthorized_body e)"
    using JSON_roundtrip[OF _ j, of "[]"] by (auto simp: ws_only_simps)
  have w: "worker_fetch req =
             Respond \<lparr>res_status = 401, res_headers = json_headers, res_body = Some t\<rparr>"
    using assms(1,2) e t by (simp add: worker_fetch_def)
  show ?thesis
    using w p by (simp add: unauthorized_body_def json_headers_def)
qed

theorem mcp_missing_header_unauthorized_witness:
  "\<exists>r t kvs. worker_fetch demo_request = Respond r \<and> res_status r = 401 \<and>
     map_of (res_headers r) ''Content-Type'' = Some ''application/json'' \<and>
     res_body r = Some t \<and> JSON_parse t = Some (JObj kvs) \<and>
     obj_get kvs ''error'' = JStr ''Unauthorized'' \<and>
     obj_get kvs ''required_headers'' =
       JArr [JStr ''X-1Password-Connect-Token'', JStr ''X-1Password-Connect-Host'']"
proof -
  have a: "pathname demo_request = ''/mcp''" by (simp add: demo_request_def)
  have b: "req_method demo_request = ''POST''" by (simp add: demo_request_def)
  have c: "headers_get demo_request ''X-1Password-Connect-Token'' = None \<or>
           headers_get demo_request ''X-1Password-Connect-Host'' = None"
    by (simp add: demo_request_def)
  show ?thesis by (rule mcp_missing_header_unauthorized[OF a b c])
qed

text \<open>
  C6. A client that has a token sends, for \<open>createItem\<close> with vault id \<open>v\<close> and any item
  object, one POST request whose body is JSON text for an object with \<open>vault\<close> equal to
  \<open>{id: v}\<close>, whether or not the item had a \<open>vault\<close> of its own. The create-item tool called
  with vaultId "v1", title "Test", category "LOGIN" and any further arguments sends such
  a request with \<open>vault\<close> equal to \<open>{id: "v1"}\<close>.
\<close>

theorem createItem_payload_vault:
  assumes "connectToken (credentials this) = Some t" and "t \<noteq> []"
    and "wf_val (JObj item)"
    and "wf_val flds" and "wf_val sections" and "wf_val urls" and "wf_val tags"
    and "wf_val favorite"
  shows "(\<exists>rq payload kvs.
            (\<forall>net. createItem this net v item =
                     (case net rq of
                        Inl e \<Rightarrow> Inl e
                      | Inr response \<Rightarrow> request_result (items_path v) response)) \<and>
            url rq = baseUrl this @ items_path v \<and>
            http_method rq = Some ''POST'' \<and> body rq = Some payload \<and>
            JSON_parse payload = Some (JObj kvs) \<and>
            obj_get kvs ''vault'' = JObj [(''id'', JStr v)])
       \<and> (\<exists>rq payload kvs.
            (\<forall>formatError net.
               tool_create_item formatError this net ''v1'' ''Test'' ''LOGIN''
                   flds sections urls tags favorite =
                 (case net rq of
                    Inl e \<Rightarrow> formatError e
                  | Inr response \<Rightarrow>
                      (case request_result (items_path ''v1'') response of
                         Inl e \<Rightarrow> formatError e
                       | Inr created \<Rightarrow>
                           \<lparr>content = [\<lparr>block_type = ''text'',
                                         block_text = JSON_stringify ''  ''
                                           (JObj [(''success'', JBool True),
                                                  (''message'', JStr ''Item created''),
                                                  (''item'', created)])\<rparr>],
                            isError = None\<rparr>))) \<and>
            http_method rq = Some ''POST'' \<and> body rq = Some payload \<and>
            JSON_parse payload = Some (JObj kvs) \<and>
            obj_get kvs ''vault'' = JObj [(''id'', JStr ''v1'')] \<and>
            obj_get kvs ''title'' = JStr ''Test'' \<and>
            obj_get kvs ''category'' = JStr ''LOGIN'')"
proof (rule conjI)
  obtain payload kvs where s: "JSON_stringify [] (itemWithVault v item) = Some payload"
    and p: "JSON_parse payload = Some (JObj kvs)"
    and g: "obj_get kvs ''vault'' = JObj [(''id'', JStr v)]"
    using itemWithVault_parsed[OF assms(3), of v] by blast
  let ?rq = "\<lparr>url = baseUrl this @ items_path v, http_method = Some ''POST'',
              headers = spread [(''Authorization'', ''Bearer '' @ t),
                                (''Content-Type'', ''application/json'')] [],
              body = Some payload\<rparr>"
  have "\<forall>net. createItem this net v item =
               (case net ?rq of
                  Inl e \<Rightarrow> Inl e
                | Inr response \<Rightarrow> request_result (items_path v) response)"
    by (simp add: createItem_def request_sends[OF assms(1,2)] s)
  then show "\<exists>rq payload kvs.
            (\<forall>net. createItem this net v item =
                     (case net rq of
                        Inl e \<Rightarrow> Inl e
                      | Inr response \<Rightarrow> request_result (items_path v) response)) \<and>
            url rq = baseUrl this @ items_path v \<and>
            http_method rq = Some ''POST'' \<and> body rq = Some payload \<and>
            JSON_parse payload = Some (JObj kvs) \<and>
            obj_get kvs ''vault'' = JObj [(''id'', JStr v)]"
    using p g by (intro exI[of _ ?rq] exI[of _ payload] exI[of _ kvs]) simp
next
  let ?item = "create_item_input ''v1'' ''Test'' ''LOGIN'' flds sections urls tags favorite"
  let ?o = "obj_set ?item ''vault'' (JObj [(''id'', JStr ''v1'')])"
  have wf: "wf_val (JObj ?item)" by (rule create_item_input_wf[OF assms(4-8)])
  then have d: "distinct (map fst ?item)" by simp
  have sp: "spread [] ?item = ?item" by (rule spread_distinct[OF d])
  have d': "distinct (map fst ?o)" by (rule distinct_obj_set[OF d])
  have m': "wf_members ?o" using wf by (intro wf_members_obj_set) simp_all
  have wfo: "wf_val (JObj ?o)" using d' m' by simp
  have p: "JSON_parse (ser [] [] (JObj ?o)) = Some (JObj (clean_members ?o))"
    using JSON_parse_ser[OF _ wfo, of "[]"] by (simp add: ws_only_simps)
  have s: "JSON_stringify [] (itemWithVault ''v1'' ?item) = Some (ser [] [] (JObj ?o))"
    by (simp add: itemWithVault_def sp JSON_stringify_def)
  have g: "obj_get (clean_members ?o) ''vault'' = JObj [(''id'', JStr ''v1'')]"
    by (simp add: obj_get_clean_members[OF d'] obj_get_obj_set)
  have g2: "obj_get (clean_members ?o) ''title'' = JStr ''Test''"
    by (simp add: obj_get_clean_members[OF d'] create_item_input_def)
  have g3: "obj_get (clean_members ?o) ''category'' = JStr ''LOGIN''"
    by (simp add: obj_get_clean_members[OF d'] create_item_input_def)
  let ?rq = "\<lparr>url = baseUrl this @ items_path ''v1'', http_method = Some ''POST'',
              headers = spread [(''Authorization'', ''Bearer '' @ t),
                                (''Content-Type'', ''application/json'')] [],
              body = Some (ser [] [] (JObj ?o))\<rparr>"
  have "\<forall>formatError net.
               tool_create_item formatError this net ''v1'' ''Test'' ''LOGIN''
                   flds sections urls tags favorite =
                 (case net ?rq of
                    Inl e \<Rightarrow> formatError e
                  | Inr response \<Rightarrow>
                      (case request_result (items_path ''v1'') response of
                         Inl e \<Rightarrow> formatError e
                       | Inr created \<Rightarrow>
                           \<lparr>content = [\<lparr>block_type = ''text'',
                                         block_text = JSON_stringify ''  ''
                                           (JObj [(''success'', JBool True),
                                                  (''message'', JStr ''Item created''),
                                                  (''item'', created)])\<rparr>],
                            isError = None\<rparr>))"
    by (simp add: tool_create_item_def createItem_def request_sends[OF assms(1,2)] s
        split: sum.splits)
  then show "\<exists>rq payload kvs.
            (\<forall>formatError net.
               tool_create_item formatError this net ''v1'' ''Test'' ''LOGIN''
                   flds sections urls tags favorite =
                 (case net rq of
                    Inl e \<Rightarrow> formatError e
                  | Inr response \<Rightarrow>
                      (case request_result (items_path ''v1'') response of
                         Inl e \<Rightarrow> formatError e
                       | Inr created \<Rightarrow>
                           \<lparr>content = [\<lparr>block_type = ''text'',
                                         block_text = JSON_stringify ''  ''
                                           (JObj [(''success'', JBool True),
                                                  (''message'', JStr ''Item created''),
                                                  (''item'', created)])\<rparr>],
                            isError = None\<rparr>))) \<and>
            http_method rq = Some ''POST'' \<and> body rq = Some payload \<and>
            JSON_parse payload = Some (JObj kvs) \<and>
            obj_get kvs ''vault'' = JObj [(''id'', JStr ''v1'')] \<and>
            obj_get kvs ''title'' = JStr ''Test'' \<and>
            obj_get kvs ''category'' = JStr ''LOGIN''"
    using p g g2 g3
    by (intro exI[of _ ?rq] exI[of _ "ser [] [] (JObj ?o)"] exI[of _ "clean_members ?o"]) simp
qed

theorem createItem_payload_vault_witness:
  "\<exists>rq payload kvs.
     (\<forall>net. createItem (createOnePasswordClient demo_credentials) net ''v1'' demo_item =
              (case net rq of
                 Inl e \<Rightarrow> Inl e
               | Inr response \<Rightarrow> request_result (items_path ''v1'') response)) \<and>
     url rq = baseUrl (createOnePasswordClient demo_credentials) @ items_path ''v1'' \<and>
     http_method rq = Some ''POST'' \<and> body rq = Some payload \<and>
     JSON_parse payload = Some (JObj kvs) \<and>
     obj_get kvs ''vault'' = JObj [(''id'', JStr ''v1'')]"
proof -
  have a: "connectToken (credentials (createOnePasswordClient demo_credentials)) = Some ''tok''"
    by (simp add: createOnePasswordClient_def demo_credentials_def)
  have b: "''tok'' \<noteq> []" by simp
  have c: "wf_val (JObj demo_item)" by (simp add: demo_item_def)
  have d: "wf_val JUndefined" by simp
  show ?thesis
    by (rule conjunct1[OF createItem_payload_vault[OF a b c d d d d d]])
qed

text \<open>
  C7. A client that has a token sends, for \<open>patchItem\<close> with an operation list, one request
  with method PATCH and Content-Type application/json-patch+json whose body is the JSON
  serialization of the list; read back, the body is a list of the same length whose
  elements are the operations in order (as far as JSON keeps a value), and is the list
  itself when the operations are JSON values.
\<close>

theorem patchItem_forwards_operations:
  assumes "connectToken (credentials this) = Some t" and "t \<noteq> []"
    and "wf_elems operations"
  shows "\<exists>rq payload.
           (\<forall>net. patchItem this net v i operations =
                    (case net rq of
                       Inl e \<Rightarrow> Inl e
                     | Inr response \<Rightarrow> request_result (item_path v i) response)) \<and>
           url rq = baseUrl this @ item_path v i \<and>
           http_method rq = Some ''PATCH'' \<and>
           map_of (headers rq) ''Content-Type'' = Some ''application/json-patch+json'' \<and>
           body rq = Some payload \<and>
           JSON_stringify [] (JArr operations) = Some payload \<and>
           JSON_parse payload = Some (JArr (map clean operations)) \<and>
           (are_json operations \<longrightarrow> JSON_parse payload = Some (JArr operations))"
proof -
  let ?payload = "ser [] [] (JArr operations)"
  let ?rq = "\<lparr>url = baseUrl this @ item_path v i, http_method = Some ''PATCH'',
              headers = spread [(''Authorization'', ''Bearer '' @ t),
                                (''Content-Type'', ''application/json'')]
                          [(''Content-Type'', ''application/json-patch+json'')],
              body = Some ?payload\<rparr>"
  have s: "JSON_stringify [] (JArr operations) = Some ?payload"
    by (simp add: JSON_stringify_def)
  have wf: "wf_val (JArr operations)" using assms(3) by simp
  have p: "JSON_parse ?payload = Some (JArr (map clean operations))"
    using JSON_parse_ser[OF _ wf, of "[]"] by (simp add: ws_only_simps clean_elems_map)
  have q: "are_json operations \<longrightarrow> map clean operations = operations"
    using is_json_clean(2)[of operations] by (simp add: clean_elems_map)
  have r: "\<forall>net. patchItem this net v i operations =
                 (case net ?rq of
                    Inl e \<Rightarrow> Inl e
                  | Inr response \<Rightarrow> request_result (item_path v i) response)"
    by (simp add: patchItem_def request_sends[OF assms(1,2)] s)
  have h: "map_of (headers ?rq) ''Content-Type'' = Some ''application/json-patch+json''"
    by (simp add: map_of_spread)
  show ?thesis
    using r h s p q
    by (intro exI[of _ ?rq] exI[of _ ?payload]) (simp del: ser.simps)
qed

theorem patchItem_forwards_operations_witness:
  "\<exists>rq payload.
     (\<forall>net. patchItem (createOnePasswordClient demo_credentials) net ''v1'' ''i1''
                demo_operations =
              (case net rq of
                 Inl e \<Rightarrow> Inl e
               | Inr response \<Rightarrow> request_result (item_path ''v1'' ''i1'') response)) \<and>
     http_method rq = Some ''PATCH'' \<and>
     map_of (headers rq) ''Content-Type'' = Some ''application/json-patch+json'' \<and>
     body rq = Some payload \<and>
     JSON_parse payload =
       Some (JArr [JObj [(''op'', JStr ''replace''), (''path'', JStr ''/title''),
                         (''value'', JStr ''New'')]])"
proof -
  have a: "connectToken (credentials (createOnePasswordClient demo_credentials)) = Some ''tok''"
    by (simp add: createOnePasswordClient_def demo_credentials_def)
  have b: "''tok'' \<noteq> []" by simp
  have c: "wf_elems demo_operations" by (simp add: demo_operations_def)
  have d: "are_json demo_operations" by (simp add: demo_operations_def)
  from patchItem_forwards_operations[OF a b c, where v = "''v1''" and i = "''i1''"]
  obtain rq payload where
    "\<forall>net. patchItem (createOnePasswordClient demo_credentials) net ''v1'' ''i1''
                demo_operations =
              (case net rq of
                 Inl e \<Rightarrow> Inl e
               | Inr response \<Rightarrow> request_result (item_path ''v1'' ''i1'') response)"
    "http_method rq = Some ''PATCH''"
    "map_of (headers rq) ''Content-Type'' = Some ''application/json-patch+json''"
    "body rq = Some payload"
    "are_json demo_operations \<longrightarrow> JSON_parse payload = Some (JArr demo_operations)"
    by blast
  with d show ?thesis
    by (intro exI[of _ rq] exI[of _ payload]) (simp add: demo_operations_def)
qed

text \<open>
  C9. In JSON mode (any format but Markdown), \<open>formatResponse\<close> returns one text block,
  and parsing its text gives the payload back, for every payload that is a JSON value.
\<close>

theorem formatResponse_json_roundtrip:
  assumes "is_json data" and "format \<noteq> ''markdown''"
  shows "\<exists>t. formatResponse formatAsMarkdown data format entityType =
               \<lparr>content = [\<lparr>block_type = ''text'', block_text = Some t\<rparr>], isError = None\<rparr> \<and>
             JSON_parse t = Some data"
  using JSON_roundtrip[OF ws_only_two_spaces assms(1)] assms(2)
  by (auto simp: formatResponse_def)

theorem formatResponse_json_roundtrip_witness:
  "\<exists>t. formatResponse (\<lambda>d e. []) demo_payload ''json'' ''vaults'' =
          \<lparr>content = [\<lparr>block_type = ''text'', block_text = Some t\<rparr>], isError = None\<rparr> \<and>
        JSON_parse t = Some demo_payload"
proof -
  have a: "is_json demo_payload" by (simp add: demo_payload_def)
  have b: "''json'' \<noteq> ''markdown''" by simp
  show ?thesis by (rule formatResponse_json_roundtrip[OF a b])
qed

end
